theory Spec2Isabelle
  imports Main "HOL-Library.Word"
begin

section \<open>Binlog replication of one MySQL table (tap\_mysql/sync\_strategies/binlog.py)\<close>

subsection \<open>Python values\<close>

text \<open>
  A \<open>datetime\<close> is its POSIX timestamp together with its \<open>tzinfo\<close>;
  \<open>pytz.UTC\<close> is the only time zone the module attaches.
\<close>

datatype tz = UTC

datatype datetime = Datetime (epoch: int) (tzinfo: "tz option")

datatype pyval = PNone | PInt int | PStr string | PDatetime datetime

text \<open>
  A Python \<open>dict\<close> keeps its keys in insertion order; it is an association list whose keys
  are distinct. \<open>d[k] = v\<close> overwrites the value of a key in place, and appends a new key.
\<close>

type_synonym pydict = "(string \<times> pyval) list"

fun dict_setitem :: "('k \<times> 'v) list \<Rightarrow> 'k \<Rightarrow> 'v \<Rightarrow> ('k \<times> 'v) list" where
  "dict_setitem [] k v = [(k, v)]"
| "dict_setitem ((k', v') # d) k v =
     (if k' = k then (k, v) # d else (k', v') # dict_setitem d k v)"

text \<open>\<open>dict(pairs)\<close> and a dict comprehension insert the pairs one after another.\<close>

definition dict_of_items :: "('k \<times> 'v) list \<Rightarrow> ('k \<times> 'v) list" where
  "dict_of_items items = foldl (\<lambda>d (k, v). dict_setitem d k v) [] items"

text \<open>
  \<open>datetime.utcfromtimestamp(t)\<close> is the naive datetime of that instant;
  \<open>.replace(tzinfo=...)\<close> attaches a zone without moving the instant. The timestamp of a
  binlog event is the unsigned 32-bit field of the event header, which
  \<open>utcfromtimestamp\<close> always accepts.
\<close>

definition utcfromtimestamp :: "32 word \<Rightarrow> datetime" where
  "utcfromtimestamp t = Datetime (uint t) None"

definition replace_tzinfo :: "datetime \<Rightarrow> tz \<Rightarrow> datetime" where
  "replace_tzinfo d z = Datetime (epoch d) (Some z)"

subsection \<open>The state object and the store\<close>

text \<open>
  The singer state is a mutable dictionary \<open>{'bookmarks': {tap_stream_id: {key: value}}}\<close>.
  \<open>singer.write_bookmark\<close> updates the object it is given in place and returns that same
  object; \<open>copy.deepcopy\<close> builds a new object that shares nothing with its argument.
  Whether an emitted message can see a later write therefore depends on which object it
  holds, so state objects live in a store: a cell holds the whole nested dictionary of one
  state object, and a message holds the address of the object it was given.
\<close>

type_synonym addr = nat

type_synonym bookmarks = "string \<Rightarrow> string \<Rightarrow> pyval option"

record store =
  heap :: "addr \<Rightarrow> bookmarks"
  next_addr :: addr

definition get_bookmark :: "store \<Rightarrow> addr \<Rightarrow> string \<Rightarrow> string \<Rightarrow> pyval" where
  "get_bookmark w state tap_stream_id key =
     (case heap w state tap_stream_id key of None \<Rightarrow> PNone | Some v \<Rightarrow> v)"

definition write_bookmark :: "store \<Rightarrow> addr \<Rightarrow> string \<Rightarrow> string \<Rightarrow> pyval \<Rightarrow> store" where
  "write_bookmark w state tap_stream_id key val =
     w\<lparr>heap := (heap w)(state := (heap w state)
          (tap_stream_id := (heap w state tap_stream_id)(key \<mapsto> val)))\<rparr>"

definition deepcopy :: "store \<Rightarrow> addr \<Rightarrow> store \<times> addr" where
  "deepcopy w a =
     (w\<lparr>heap := (heap w)(next_addr w := heap w a), next_addr := Suc (next_addr w)\<rparr>,
      next_addr w)"

subsection \<open>Catalog entry, binlog events, messages, errors\<close>

record catalog_entry =
  tap_stream_id :: string
  database :: string
  stream :: string

text \<open>
  The four event classes the reader is asked for. A row of a write or delete event is its
  \<open>'values'\<close> dictionary; a row of an update event is the pair of its
  \<open>'before_values'\<close> and \<open>'after_values'\<close>.
\<close>

datatype binlog_event =
    RotateEvent (next_binlog: string) (position: int)
  | WriteRowsEvent (schema: string) (table: string) (timestamp: "32 word")
      (write_rows: "pydict list")
  | UpdateRowsEvent (schema: string) (table: string) (timestamp: "32 word")
      (update_rows: "(pydict \<times> pydict) list")
  | DeleteRowsEvent (schema: string) (table: string) (timestamp: "32 word")
      (delete_rows: "pydict list")

text \<open>
  One iteration of \<open>for binlog_event in reader\<close>: the event, and the reader's own
  \<open>log_file\<close> and \<open>log_pos\<close> once the event has been pulled.
\<close>

record pulled =
  event :: binlog_event
  reader_log_file :: string
  reader_log_pos :: int

datatype message =
    ActivateVersionMessage string int
  | RecordMessage (msg_stream: string) (msg_record: pydict) (msg_version: int)
      (msg_time_extracted: datetime)
  | StateMessage addr

fun is_record :: "message \<Rightarrow> bool" where
  "is_record (RecordMessage _ _ _ _) = True"
| "is_record _ = False"

fun is_state :: "message \<Rightarrow> bool" where
  "is_state (StateMessage _) = True"
| "is_state _ = False"

fun is_activate :: "message \<Rightarrow> bool" where
  "is_activate (ActivateVersionMessage _ _) = True"
| "is_activate _ = False"

text \<open>
  Every \<open>raise\<close> of the module, with the arguments of its message's \<open>format\<close>, and the
  two exceptions Python itself raises: \<open>TypeError\<close> when \<open>log_pos > current_log_pos\<close>
  compares a non-integer, \<open>ValueError\<close> when the unpacking of \<open>zip(*items)\<close> gets no
  tuples.
\<close>

datatype error =
    BinlogFormatNotRow string string
  | BinlogRowImageNotFull string string
  | LogFileDoesNotExist string pyval
  | PositionGreaterThanCurrent string pyval pyval int
  | TypeError
  | ValueError

text \<open>
  What the server, the clock and the modules outside this file answer during one run:
  the two system variables, the rows of \<open>SHOW BINARY LOGS\<close> (name and size),
  \<open>@@server_id\<close>, the events a \<open>BinLogStreamReader\<close> opened with a server id and a
  position yields, the one reading \<open>utils.now()\<close> returns, and
  \<open>common.get_stream_version\<close>.
\<close>

record environment =
  binlog_format :: string
  binlog_row_image :: string
  binary_logs :: "(string \<times> int) list"
  server_id :: int
  binlog_stream :: "int \<Rightarrow> pyval \<Rightarrow> pyval \<Rightarrow> pulled list"
  now :: datetime
  get_stream_version :: "string \<Rightarrow> bookmarks \<Rightarrow> int"

definition SDC_DELETED_AT :: string where
  "SDC_DELETED_AT = ''_sdc_deleted_at''"

definition UPDATE_BOOKMARK_PERIOD :: nat where
  "UPDATE_BOOKMARK_PERIOD = 1000"

subsection \<open>add\_automatic\_properties\<close>

text \<open>
  The columns part of \<open>add_automatic_properties\<close>: \<open>columns.append(SDC_DELETED_AT)\<close>.
  (The schema property it also sets is not read by this module.)
\<close>

definition add_automatic_properties :: "string list \<Rightarrow> string list" where
  "add_automatic_properties columns = columns @ [SDC_DELETED_AT]"

subsection \<open>Configuration verification\<close>

definition verify_binlog_config :: "environment \<Rightarrow> catalog_entry \<Rightarrow> error + unit" where
  "verify_binlog_config env catalog_entry =
     (if binlog_format env \<noteq> ''ROW''
      then Inl (BinlogFormatNotRow (stream catalog_entry) (binlog_format env))
      else if binlog_row_image env \<noteq> ''FULL''
      then Inl (BinlogRowImageNotFull (stream catalog_entry) (binlog_row_image env))
      else Inr ())"

definition verify_log_file_exists ::
  "environment \<Rightarrow> catalog_entry \<Rightarrow> pyval \<Rightarrow> pyval \<Rightarrow> error + unit" where
  "verify_log_file_exists env catalog_entry log_file log_pos =
     (case filter (\<lambda>log. PStr (fst log) = log_file) (binary_logs env) of
        [] \<Rightarrow> Inl (LogFileDoesNotExist (stream catalog_entry) log_file)
      | existing # _ \<Rightarrow>
          (let current_log_pos = snd existing in
           case log_pos of
             PInt p \<Rightarrow>
               if p > current_log_pos
               then Inl (PositionGreaterThanCurrent (stream catalog_entry)
                           log_pos log_file current_log_pos)
               else Inr ()
           | _ \<Rightarrow> Inl TypeError))"

subsection \<open>Building a record\<close>

text \<open>
  Modelled from the spec: \<open>common.row_to_singer_record\<close> (module
  \<open>tap_mysql.sync_strategies.common\<close>) is missing from the sources. The spec gives its
  result, the ChangeRecord \<open>{stream_id, version, values: mapping[column\<rightarrow>value],
  extracted_at}\<close>: the values pair each column with the value at the same place of the row.
\<close>

definition common_row_to_singer_record ::
  "catalog_entry \<Rightarrow> int \<Rightarrow> pyval list \<Rightarrow> string list \<Rightarrow> datetime \<Rightarrow> message" where
  "common_row_to_singer_record catalog_entry version row columns time_extracted =
     RecordMessage (stream catalog_entry) (dict_of_items (zip columns row))
       version time_extracted"

text \<open>
  \<open>zip(*filtered_vals.items())\<close> yields the tuple of keys and the tuple of values, or
  nothing at all when no key of the row is a column: unpacking it into two names then
  raises \<open>ValueError\<close>.
\<close>

definition row_to_singer_record ::
  "catalog_entry \<Rightarrow> int \<Rightarrow> pydict \<Rightarrow> string list \<Rightarrow> datetime \<Rightarrow> error + message" where
  "row_to_singer_record catalog_entry version vals columns time_extracted =
     (let filtered_vals = dict_of_items (filter (\<lambda>(k, v). k \<in> set columns) vals) in
      if filtered_vals = [] then Inl ValueError
      else Inr (common_row_to_singer_record catalog_entry version
                  (map snd filtered_vals) (map fst filtered_vals) time_extracted))"

subsection \<open>The loop of sync\_table\<close>

text \<open>
  The names \<open>sync_table\<close> binds before its loop and never rebinds: its arguments, the
  bookmark read at the start, the stream version and the extraction time. \<open>state\<close> is
  the address of the state object (every \<open>state = singer.write_bookmark(state, ...)\<close>
  rebinds the name to the same object).
\<close>

record session =
  catalog_entry :: catalog_entry
  state :: addr
  columns :: "string list"
  log_file :: pyval
  log_pos :: pyval
  stream_version :: int
  time_extracted :: datetime

text \<open>
  What a stretch of the generator has done: the messages it yielded, in order, the store
  and the counter it leaves, and the exception that ended it, if any.
\<close>

record outcome =
  emitted :: "message list"
  store_of :: store
  rows_saved :: nat
  raised :: "error option"

definition yield_first :: "message \<Rightarrow> outcome \<Rightarrow> outcome" where
  "yield_first m r = r\<lparr>emitted := m # emitted r\<rparr>"

text \<open>Lines 167--177: the rows of a \<open>WriteRowsEvent\<close>.\<close>

fun sync_write_rows :: "session \<Rightarrow> store \<Rightarrow> nat \<Rightarrow> pydict list \<Rightarrow> outcome" where
  "sync_write_rows s w n [] = \<lparr>emitted = [], store_of = w, rows_saved = n, raised = None\<rparr>"
| "sync_write_rows s w n (row # rows) =
     (case row_to_singer_record (catalog_entry s) (stream_version s) row (columns s)
             (time_extracted s) of
        Inl e \<Rightarrow> \<lparr>emitted = [], store_of = w, rows_saved = n, raised = Some e\<rparr>
      | Inr m \<Rightarrow>
          yield_first m
            (sync_write_rows s
               (write_bookmark w (state s) (tap_stream_id (catalog_entry s)) ''log_file''
                  (log_file s))
               (n + 1) rows))"

text \<open>Lines 181--187: the rows of an \<open>UpdateRowsEvent\<close>.\<close>

fun sync_update_rows ::
  "session \<Rightarrow> store \<Rightarrow> nat \<Rightarrow> (pydict \<times> pydict) list \<Rightarrow> outcome" where
  "sync_update_rows s w n [] =
     \<lparr>emitted = [], store_of = w, rows_saved = n, raised = None\<rparr>"
| "sync_update_rows s w n ((before_values, after_values) # rows) =
     (case row_to_singer_record (catalog_entry s) (stream_version s) after_values (columns s)
             (time_extracted s) of
        Inl e \<Rightarrow> \<lparr>emitted = [], store_of = w, rows_saved = n, raised = Some e\<rparr>
      | Inr m \<Rightarrow> yield_first m (sync_update_rows s w (n + 1) rows))"

text \<open>Lines 189--200: the rows of a \<open>DeleteRowsEvent\<close> with the event's timestamp.\<close>

fun sync_delete_rows ::
  "session \<Rightarrow> 32 word \<Rightarrow> store \<Rightarrow> nat \<Rightarrow> pydict list \<Rightarrow> outcome" where
  "sync_delete_rows s ts w n [] =
     \<lparr>emitted = [], store_of = w, rows_saved = n, raised = None\<rparr>"
| "sync_delete_rows s ts w n (row # rows) =
     (let event_ts = replace_tzinfo (utcfromtimestamp ts) UTC;
          vals = dict_setitem row SDC_DELETED_AT (PDatetime event_ts)
      in case row_to_singer_record (catalog_entry s) (stream_version s) vals (columns s)
                (time_extracted s) of
           Inl e \<Rightarrow> \<lparr>emitted = [], store_of = w, rows_saved = n, raised = Some e\<rparr>
         | Inr m \<Rightarrow> yield_first m (sync_delete_rows s ts w (n + 1) rows))"

text \<open>Lines 166--200: the \<open>isinstance\<close> chain inside the branch of the tracked table.\<close>

fun sync_rows :: "session \<Rightarrow> store \<Rightarrow> nat \<Rightarrow> binlog_event \<Rightarrow> outcome" where
  "sync_rows s w n (WriteRowsEvent sc tb ts rows) = sync_write_rows s w n rows"
| "sync_rows s w n (UpdateRowsEvent sc tb ts rows) = sync_update_rows s w n rows"
| "sync_rows s w n (DeleteRowsEvent sc tb ts rows) = sync_delete_rows s ts w n rows"
| "sync_rows s w n (RotateEvent nb pos) =
     \<lparr>emitted = [], store_of = w, rows_saved = n, raised = None\<rparr>"

text \<open>\<open>yield singer.StateMessage(value=copy.deepcopy(state))\<close>, appended to a stretch.\<close>

definition yield_state :: "session \<Rightarrow> outcome \<Rightarrow> outcome" where
  "yield_state s r =
     (case deepcopy (store_of r) (state s) of
        (w', copied) \<Rightarrow> r\<lparr>emitted := emitted r @ [StateMessage copied], store_of := w'\<rparr>)"

text \<open>Line 149: the comparison with the bookmark the session started from.\<close>

definition skipped :: "session \<Rightarrow> pulled \<Rightarrow> bool" where
  "skipped s p \<longleftrightarrow> PStr (reader_log_file p) = log_file s \<and> PInt (reader_log_pos p) = log_pos s"

definition tracked :: "session \<Rightarrow> binlog_event \<Rightarrow> bool" where
  "tracked s ev \<longleftrightarrow>
     (schema ev, table ev) = (database (catalog_entry s), stream (catalog_entry s))"

text \<open>Lines 149--215: the body of the loop for one pulled event.\<close>

definition process_event :: "session \<Rightarrow> store \<Rightarrow> nat \<Rightarrow> pulled \<Rightarrow> outcome" where
  "process_event s w n p =
     (if skipped s p
      then \<lparr>emitted = [], store_of = w, rows_saved = n, raised = None\<rparr>
      else case event p of
        RotateEvent nb pos \<Rightarrow>
          (let w1 = write_bookmark w (state s) (tap_stream_id (catalog_entry s))
                      ''log_file'' (PStr nb);
               w2 = write_bookmark w1 (state s) (tap_stream_id (catalog_entry s))
                      ''log_pos'' (PInt pos)
           in yield_state s \<lparr>emitted = [], store_of = w2, rows_saved = n, raised = None\<rparr>)
      | ev \<Rightarrow>
          if tracked s ev then
            (let r = sync_rows s w n ev in
             case raised r of
               Some e \<Rightarrow> r
             | None \<Rightarrow>
                 (let w1 = write_bookmark (store_of r) (state s)
                             (tap_stream_id (catalog_entry s)) ''log_file''
                             (PStr (reader_log_file p));
                      w2 = write_bookmark w1 (state s)
                             (tap_stream_id (catalog_entry s)) ''log_pos''
                             (PInt (reader_log_pos p));
                      r2 = r\<lparr>store_of := w2\<rparr>;
                      r3 = (if rows_saved r2 mod UPDATE_BOOKMARK_PERIOD = 0
                            then yield_state s r2 else r2)
                  in yield_state s r3))
          else yield_state s \<lparr>emitted = [], store_of = w, rows_saved = n, raised = None\<rparr>)"

text \<open>Line 148: the loop; an exception ends it with what has been yielded so far.\<close>

fun sync_events :: "session \<Rightarrow> store \<Rightarrow> nat \<Rightarrow> pulled list \<Rightarrow> outcome" where
  "sync_events s w n [] = \<lparr>emitted = [], store_of = w, rows_saved = n, raised = None\<rparr>"
| "sync_events s w n (p # ps) =
     (let r = process_event s w n p in
      case raised r of
        Some e \<Rightarrow> r
      | None \<Rightarrow>
          (let r' = sync_events s (store_of r) (rows_saved r) ps
           in r'\<lparr>emitted := emitted r @ emitted r'\<rparr>))"

subsection \<open>sync\_table\<close>

definition sync_table ::
  "environment \<Rightarrow> catalog_entry \<Rightarrow> store \<Rightarrow> addr \<Rightarrow> string list \<Rightarrow> outcome" where
  "sync_table env ce w st cols =
     (let lf = get_bookmark w st (tap_stream_id ce) ''log_file'';
          lp = get_bookmark w st (tap_stream_id ce) ''log_pos''
      in case verify_binlog_config env ce of
           Inl e \<Rightarrow> \<lparr>emitted = [], store_of = w, rows_saved = 0, raised = Some e\<rparr>
         | Inr _ \<Rightarrow>
        (case verify_log_file_exists env ce lf lp of
           Inl e \<Rightarrow> \<lparr>emitted = [], store_of = w, rows_saved = 0, raised = Some e\<rparr>
         | Inr _ \<Rightarrow>
          (let version = get_stream_version env (tap_stream_id ce) (heap w st);
               w1 = write_bookmark w st (tap_stream_id ce) ''version'' (PInt version);
               reader = binlog_stream env (server_id env) lf lp;
               s = \<lparr>catalog_entry = ce, state = st, columns = cols, log_file = lf,
                    log_pos = lp, stream_version = version, time_extracted = now env\<rparr>
           in yield_first (ActivateVersionMessage (stream ce) version)
                (sync_events s w1 0 reader))))"

subsection \<open>Vocabulary of the properties\<close>

text \<open>
  The record message whose values are the entries of \<open>vals\<close> under the session's columns,
  with the session's stream, version and extraction time.
\<close>

definition record_of :: "session \<Rightarrow> pydict \<Rightarrow> message" where
  "record_of s vals =
     RecordMessage (stream (catalog_entry s))
       (dict_of_items (filter (\<lambda>(k, v). k \<in> set (columns s)) vals))
       (stream_version s) (time_extracted s)"

text \<open>The soft-delete value of an event: its timestamp as a UTC datetime.\<close>

definition deleted_at :: "32 word \<Rightarrow> pyval" where
  "deleted_at ts = PDatetime (Datetime (uint ts) (Some UTC))"

text \<open>
  The values the rows of an event are turned into records from: the new values of a
  write, the after-values of an update, the values of a delete with the deletion time
  stored under \<open>_sdc_deleted_at\<close>.
\<close>

fun row_values :: "binlog_event \<Rightarrow> pydict list" where
  "row_values (WriteRowsEvent sc tb ts rows) = rows"
| "row_values (UpdateRowsEvent sc tb ts rows) = map snd rows"
| "row_values (DeleteRowsEvent sc tb ts rows) =
     map (\<lambda>row. dict_setitem row SDC_DELETED_AT (deleted_at ts)) rows"
| "row_values (RotateEvent nb pos) = []"

text \<open>The bookmark in the state object is the one the session read at its start.\<close>

definition at_start :: "session \<Rightarrow> store \<Rightarrow> bool" where
  "at_start s w \<longleftrightarrow>
     get_bookmark w (state s) (tap_stream_id (catalog_entry s)) ''log_file'' = log_file s
     \<and> get_bookmark w (state s) (tap_stream_id (catalog_entry s)) ''log_pos'' = log_pos s"

text \<open>Lines 202--210: the bookmark set to the reader's position.\<close>

definition advance :: "session \<Rightarrow> pulled \<Rightarrow> store \<Rightarrow> store" where
  "advance s p w =
     write_bookmark
       (write_bookmark w (state s) (tap_stream_id (catalog_entry s)) ''log_file''
          (PStr (reader_log_file p)))
       (state s) (tap_stream_id (catalog_entry s)) ''log_pos'' (PInt (reader_log_pos p))"

text \<open>
  The size \<open>SHOW BINARY LOGS\<close> reports for a log file, in the first row of that name:
  the current tail position of the file.
\<close>

definition tail_position :: "environment \<Rightarrow> pyval \<Rightarrow> int option" where
  "tail_position env lf = map_of (map (\<lambda>log. (PStr (fst log), snd log)) (binary_logs env)) lf"

text \<open>A session that ends with an exception before it has yielded or written anything.\<close>

definition refused :: "store \<Rightarrow> error \<Rightarrow> outcome" where
  "refused w e = \<lparr>emitted = [], store_of = w, rows_saved = 0, raised = Some e\<rparr>"

subsection \<open>A concrete run\<close>

text \<open>
  The scenario of the spec: table \<open>db.t\<close>, bookmark \<open>bin.000005\<close> at position 120, the
  state object at address 0. The reader first replays the boundary event, then delivers
  a write of one row, a write to another table, an update, a delete and a rotation.
\<close>

definition ex_ce :: catalog_entry where
  "ex_ce = \<lparr>tap_stream_id = ''db-t'', database = ''db'', stream = ''t''\<rparr>"

definition ex_store :: store where
  "ex_store =
     \<lparr>heap = (\<lambda>a sid key.
         if a = 0 \<and> sid = ''db-t'' \<and> key = ''log_file'' then Some (PStr ''bin.000005'')
         else if a = 0 \<and> sid = ''db-t'' \<and> key = ''log_pos'' then Some (PInt 120)
         else None),
      next_addr = 1\<rparr>"

definition ex_columns :: "string list" where
  "ex_columns = add_automatic_properties [''id'', ''name'']"

definition ex_boundary :: pulled where
  "ex_boundary = \<lparr>event = RotateEvent ''bin.000005'' 120,
     reader_log_file = ''bin.000005'', reader_log_pos = 120\<rparr>"

definition ex_write :: pulled where
  "ex_write = \<lparr>event = WriteRowsEvent ''db'' ''t'' 1700000000
       [[(''id'', PInt 1), (''name'', PStr ''a''), (''secret'', PStr ''x'')]],
     reader_log_file = ''bin.000005'', reader_log_pos = 340\<rparr>"

definition ex_other :: pulled where
  "ex_other = \<lparr>event = WriteRowsEvent ''db'' ''u'' 1700000001 [[(''id'', PInt 9)]],
     reader_log_file = ''bin.000005'', reader_log_pos = 400\<rparr>"

definition ex_update :: pulled where
  "ex_update = \<lparr>event = UpdateRowsEvent ''db'' ''t'' 1700000002
       [([(''id'', PInt 1), (''name'', PStr ''a'')], [(''id'', PInt 1), (''name'', PStr ''b'')])],
     reader_log_file = ''bin.000005'', reader_log_pos = 470\<rparr>"

definition ex_delete :: pulled where
  "ex_delete = \<lparr>event = DeleteRowsEvent ''db'' ''t'' 1700000003
       [[(''id'', PInt 1), (''name'', PStr ''b'')]],
     reader_log_file = ''bin.000005'', reader_log_pos = 530\<rparr>"

definition ex_rotate :: pulled where
  "ex_rotate = \<lparr>event = RotateEvent ''bin.000006'' 4,
     reader_log_file = ''bin.000006'', reader_log_pos = 4\<rparr>"

definition ex_env :: environment where
  "ex_env =
     \<lparr>binlog_format = ''ROW'', binlog_row_image = ''FULL'',
      binary_logs = [(''bin.000004'', 2048), (''bin.000005'', 1024)],
      server_id = 1,
      binlog_stream = (\<lambda>_ _ _. [ex_boundary, ex_write, ex_other, ex_update, ex_delete, ex_rotate]),
      now = Datetime 1700000100 (Some UTC),
      get_stream_version = (\<lambda>_ _. 7)\<rparr>"

text \<open>A second run: one write event of the tracked table that carries 2500 rows.\<close>

definition ex_bulk :: pulled where
  "ex_bulk = \<lparr>event = WriteRowsEvent ''db'' ''t'' 1700000004 (replicate 2500 [(''id'', PInt 1)]),
     reader_log_file = ''bin.000005'', reader_log_pos = 900\<rparr>"

definition ex_bulk_env :: environment where
  "ex_bulk_env = ex_env\<lparr>binlog_stream := (\<lambda>_ _ _. [ex_bulk])\<rparr>"

text \<open>A third run: the delete event alone.\<close>

definition ex_delete_env :: environment where
  "ex_delete_env = ex_env\<lparr>binlog_stream := (\<lambda>_ _ _. [ex_delete])\<rparr>"

definition ex_session :: session where
  "ex_session =
     \<lparr>catalog_entry = ex_ce, state = 0, columns = ex_columns,
      log_file = PStr ''bin.000005'', log_pos = PInt 120,
      stream_version = 7, time_extracted = Datetime 1700000100 (Some UTC)\<rparr>"

section \<open>Properties\<close>

subsection \<open>Unfolding the concrete run\<close>

lemmas ex_defs = ex_ce_def ex_store_def ex_columns_def ex_boundary_def ex_write_def
  ex_other_def ex_update_def ex_delete_def ex_rotate_def ex_env_def ex_session_def
  add_automatic_properties_def SDC_DELETED_AT_def

lemmas run_defs = process_event_def skipped_def tracked_def row_to_singer_record_def
  common_row_to_singer_record_def dict_of_items_def yield_state_def deepcopy_def
  yield_first_def write_bookmark_def get_bookmark_def UPDATE_BOOKMARK_PERIOD_def
  replace_tzinfo_def utcfromtimestamp_def Let_def

subsection \<open>Dictionaries\<close>

lemma set_fst_dict_setitem: "fst ` set (dict_setitem d k v) = insert k (fst ` set d)"
  by (induction d) (auto split: if_splits simp: rev_image_eqI)

lemma dict_setitem_fresh: "k \<notin> fst ` set d \<Longrightarrow> dict_setitem d k v = d @ [(k, v)]"
  by (induction d) auto

lemma map_of_dict_setitem: "map_of (dict_setitem d k v) = (map_of d)(k \<mapsto> v)"
  by (induction d) auto

lemma distinct_dict_setitem:
  "distinct (map fst d) \<Longrightarrow> distinct (map fst (dict_setitem d k v))"
proof (induction d)
  case Nil
  show ?case by simp
next
  case (Cons x d)
  obtain k' v' where x: "x = (k', v')" by (cases x)
  have keys: "fst ` set (dict_setitem d k v) = insert k (fst ` set d)"
    by (rule set_fst_dict_setitem)
  from Cons.prems have fresh: "k' \<notin> fst ` set d" and dist: "distinct (map fst d)"
    by (simp_all add: x)
  show ?case
  proof (cases "k' = k")
    case True
    with fresh dist show ?thesis by (simp add: x)
  next
    case False
    with fresh keys Cons.IH [OF dist] show ?thesis by (simp add: x)
  qed
qed

lemma foldl_dict_setitem_keys:
  "fst ` set (foldl (\<lambda>d (k, v). dict_setitem d k v) acc items)
     = fst ` set acc \<union> fst ` set items"
proof (induction items arbitrary: acc)
  case Nil
  show ?case by simp
next
  case (Cons x items)
  obtain k v where x: "x = (k, v)" by (cases x)
  show ?case
    by (simp add: x Cons.IH set_fst_dict_setitem)
qed

lemma foldl_dict_setitem_distinct:
  "distinct (map fst acc) \<Longrightarrow>
     distinct (map fst (foldl (\<lambda>d (k, v). dict_setitem d k v) acc items))"
proof (induction items arbitrary: acc)
  case Nil
  then show ?case by simp
next
  case (Cons x items)
  obtain k v where x: "x = (k, v)" by (cases x)
  from Cons.prems have "distinct (map fst (dict_setitem acc k v))"
    by (rule distinct_dict_setitem)
  then show ?case
    by (simp add: x Cons.IH)
qed

lemma foldl_dict_setitem_id:
  "distinct (map fst (acc @ items)) \<Longrightarrow>
     foldl (\<lambda>d (k, v). dict_setitem d k v) acc items = acc @ items"
proof (induction items arbitrary: acc)
  case Nil
  show ?case by simp
next
  case (Cons x items)
  obtain k v where x: "x = (k, v)" by (cases x)
  from Cons.prems have fresh: "k \<notin> fst ` set acc"
    by (auto simp: x)
  from Cons.prems have "distinct (map fst ((acc @ [(k, v)]) @ items))"
    by (simp add: x)
  then have "foldl (\<lambda>d (k, v). dict_setitem d k v) (acc @ [(k, v)]) items
               = (acc @ [(k, v)]) @ items"
    by (rule Cons.IH)
  then show ?case
    by (simp add: x dict_setitem_fresh [OF fresh])
qed

lemma keys_dict_of_items: "fst ` set (dict_of_items items) = fst ` set items"
  by (simp add: dict_of_items_def foldl_dict_setitem_keys)

lemma distinct_dict_of_items: "distinct (map fst (dict_of_items items))"
  by (simp add: dict_of_items_def foldl_dict_setitem_distinct)

lemma dict_of_items_id: "distinct (map fst d) \<Longrightarrow> dict_of_items d = d"
  using foldl_dict_setitem_id [of "[]" d] by (simp add: dict_of_items_def)

lemma dict_of_items_idem: "dict_of_items (dict_of_items items) = dict_of_items items"
  by (rule dict_of_items_id) (rule distinct_dict_of_items)

subsection \<open>The store\<close>

lemma next_addr_write_bookmark: "next_addr (write_bookmark w a sid k v) = next_addr w"
  by (simp add: write_bookmark_def)

lemma heap_write_bookmark_other: "b \<noteq> a \<Longrightarrow> heap (write_bookmark w a sid k v) b = heap w b"
  by (simp add: write_bookmark_def)

lemma get_write_bookmark_same:
  "get_bookmark (write_bookmark w a sid k v) a sid k = v"
  by (simp add: write_bookmark_def get_bookmark_def)

lemma get_write_bookmark_other_key:
  "k' \<noteq> k \<Longrightarrow> get_bookmark (write_bookmark w a sid k v) a sid k' = get_bookmark w a sid k'"
  by (simp add: write_bookmark_def get_bookmark_def)

lemma process_event_skipped:
  "skipped s p \<Longrightarrow>
     process_event s w n p = \<lparr>emitted = [], store_of = w, rows_saved = n, raised = None\<rparr>"
  by (simp add: process_event_def)

lemma sync_events_append:
  "sync_events s w n (ps @ qs) =
     (let r = sync_events s w n ps in
      case raised r of
        Some e \<Rightarrow> r
      | None \<Rightarrow>
          (let r' = sync_events s (store_of r) (rows_saved r) qs
           in r'\<lparr>emitted := emitted r @ emitted r'\<rparr>))"
proof (induction ps arbitrary: w n)
  case Nil
  show ?case by simp
next
  case (Cons p ps)
  show ?case
    by (cases "raised (process_event s w n p)")
       (simp_all add: Cons.IH Let_def split: option.splits)
qed

lemma sync_events_skipped_cons:
  "skipped s p \<Longrightarrow> sync_events s w n (p # ps) = sync_events s w n ps"
  by (simp add: process_event_skipped)

lemma sync_events_drop_skipped:
  assumes "skipped s p"
  shows "sync_events s w n (before @ p # after) = sync_events s w n (before @ after)"
proof -
  have "\<And>w' n'. sync_events s w' n' (p # after) = sync_events s w' n' after"
    using assms by (rule sync_events_skipped_cons)
  then show ?thesis
    by (simp only: sync_events_append)
qed

lemma sync_events_filter_skipped:
  "sync_events s w n (filter (\<lambda>p. \<not> skipped s p) ps) = sync_events s w n ps"
proof (induction ps arbitrary: w n)
  case Nil
  show ?case by simp
next
  case (Cons p ps)
  show ?case
  proof (cases "skipped s p")
    case True
    then show ?thesis by (simp add: Cons.IH process_event_skipped)
  next
    case False
    then show ?thesis by (simp add: Cons.IH Let_def cong: option.case_cong)
  qed
qed

lemma ex_bookmark:
  "get_bookmark ex_store 0 (tap_stream_id ex_ce) ''log_file'' = PStr ''bin.000005''"
  "get_bookmark ex_store 0 (tap_stream_id ex_ce) ''log_pos'' = PInt 120"
  by (simp_all add: get_bookmark_def ex_store_def ex_ce_def)

subsection \<open>Records and the row loops\<close>

lemma row_to_singer_record_cases:
  "row_to_singer_record (catalog_entry s) (stream_version s) vals (columns s) (time_extracted s)
     = (if dict_of_items (filter (\<lambda>(k, v). k \<in> set (columns s)) vals) = []
        then Inl ValueError else Inr (record_of s vals))"
  by (simp add: row_to_singer_record_def Let_def common_row_to_singer_record_def
        record_of_def zip_map_fst_snd dict_of_items_idem)

lemma row_to_singer_record_Inr:
  "row_to_singer_record (catalog_entry s) (stream_version s) vals (columns s) (time_extracted s)
      = Inr m \<Longrightarrow> m = record_of s vals"
  by (simp add: row_to_singer_record_cases split: if_splits)

lemma emitted_yield_first [simp]: "emitted (yield_first m r) = m # emitted r"
  and store_of_yield_first [simp]: "store_of (yield_first m r) = store_of r"
  and rows_saved_yield_first [simp]: "rows_saved (yield_first m r) = rows_saved r"
  and raised_yield_first [simp]: "raised (yield_first m r) = raised r"
  by (simp_all add: yield_first_def)

text \<open>The rows of a write event.\<close>

lemma sync_write_rows_Cons:
  "sync_write_rows s w n (row # rows) =
     (if dict_of_items (filter (\<lambda>(k, v). k \<in> set (columns s)) row) = []
      then \<lparr>emitted = [], store_of = w, rows_saved = n, raised = Some ValueError\<rparr>
      else yield_first (record_of s row)
             (sync_write_rows s
                (write_bookmark w (state s) (tap_stream_id (catalog_entry s)) ''log_file''
                   (log_file s))
                (Suc n) rows))"
  by (simp add: row_to_singer_record_cases)

lemma sync_write_rows_count:
  "rows_saved (sync_write_rows s w n rows) = n + length (emitted (sync_write_rows s w n rows))"
  by (induction rows arbitrary: w n)
     (simp_all add: sync_write_rows_Cons del: sync_write_rows.simps(2))

lemma sync_write_rows_emitted:
  "map (record_of s) (take (length (emitted (sync_write_rows s w n rows))) rows)
     = emitted (sync_write_rows s w n rows)"
  by (induction rows arbitrary: w n)
     (simp_all add: sync_write_rows_Cons del: sync_write_rows.simps(2))

lemma sync_write_rows_length:
  "length (emitted (sync_write_rows s w n rows)) \<le> length rows"
  by (induction rows arbitrary: w n)
     (simp_all add: sync_write_rows_Cons del: sync_write_rows.simps(2))

lemma sync_write_rows_complete:
  "raised (sync_write_rows s w n rows) = None \<Longrightarrow>
     length (emitted (sync_write_rows s w n rows)) = length rows"
  by (induction rows arbitrary: w n)
     (simp_all add: sync_write_rows_Cons del: sync_write_rows.simps(2) split: if_splits)

lemma sync_write_rows_next_addr:
  "next_addr (store_of (sync_write_rows s w n rows)) = next_addr w"
  by (induction rows arbitrary: w n)
     (simp_all add: sync_write_rows_Cons next_addr_write_bookmark del: sync_write_rows.simps(2))

lemma sync_write_rows_heap_other:
  "a \<noteq> state s \<Longrightarrow> heap (store_of (sync_write_rows s w n rows)) a = heap w a"
  by (induction rows arbitrary: w n)
     (simp_all add: sync_write_rows_Cons heap_write_bookmark_other del: sync_write_rows.simps(2))

lemma write_bookmark_twice:
  "write_bookmark (write_bookmark w a sid k v) a sid k v' = write_bookmark w a sid k v'"
  by (simp add: write_bookmark_def)

lemma sync_write_rows_store:
  "store_of (sync_write_rows s w n rows)
     = (if emitted (sync_write_rows s w n rows) = [] then w
        else write_bookmark w (state s) (tap_stream_id (catalog_entry s)) ''log_file''
               (log_file s))"
  by (induction rows arbitrary: w n)
     (simp_all add: sync_write_rows_Cons write_bookmark_twice del: sync_write_rows.simps(2))

text \<open>The rows of an update event.\<close>

lemma sync_update_rows_Cons:
  "sync_update_rows s w n (row # rows) =
     (if dict_of_items (filter (\<lambda>(k, v). k \<in> set (columns s)) (snd row)) = []
      then \<lparr>emitted = [], store_of = w, rows_saved = n, raised = Some ValueError\<rparr>
      else yield_first (record_of s (snd row)) (sync_update_rows s w (Suc n) rows))"
  by (cases row) (simp add: row_to_singer_record_cases)

lemma sync_update_rows_count:
  "rows_saved (sync_update_rows s w n rows)
     = n + length (emitted (sync_update_rows s w n rows))"
  by (induction rows arbitrary: w n)
     (simp_all add: sync_update_rows_Cons del: sync_update_rows.simps(2))

lemma sync_update_rows_emitted:
  "map (\<lambda>row. record_of s (snd row))
       (take (length (emitted (sync_update_rows s w n rows))) rows)
     = emitted (sync_update_rows s w n rows)"
  by (induction rows arbitrary: w n)
     (simp_all add: sync_update_rows_Cons del: sync_update_rows.simps(2))

lemma sync_update_rows_length:
  "length (emitted (sync_update_rows s w n rows)) \<le> length rows"
  by (induction rows arbitrary: w n)
     (simp_all add: sync_update_rows_Cons del: sync_update_rows.simps(2))

lemma sync_update_rows_complete:
  "raised (sync_update_rows s w n rows) = None \<Longrightarrow>
     length (emitted (sync_update_rows s w n rows)) = length rows"
  by (induction rows arbitrary: w n)
     (simp_all add: sync_update_rows_Cons del: sync_update_rows.simps(2) split: if_splits)

lemma sync_update_rows_store: "store_of (sync_update_rows s w n rows) = w"
  by (induction rows arbitrary: w n)
     (simp_all add: sync_update_rows_Cons del: sync_update_rows.simps(2))

text \<open>The rows of a delete event.\<close>

lemma event_ts: "PDatetime (replace_tzinfo (utcfromtimestamp ts) UTC) = deleted_at ts"
  by (simp add: replace_tzinfo_def utcfromtimestamp_def deleted_at_def)

lemma sync_delete_rows_Cons:
  "sync_delete_rows s ts w n (row # rows) =
     (if dict_of_items (filter (\<lambda>(k, v). k \<in> set (columns s))
           (dict_setitem row SDC_DELETED_AT (deleted_at ts))) = []
      then \<lparr>emitted = [], store_of = w, rows_saved = n, raised = Some ValueError\<rparr>
      else yield_first (record_of s (dict_setitem row SDC_DELETED_AT (deleted_at ts)))
             (sync_delete_rows s ts w (Suc n) rows))"
  by (simp add: row_to_singer_record_cases event_ts Let_def)

lemma sync_delete_rows_count:
  "rows_saved (sync_delete_rows s ts w n rows)
     = n + length (emitted (sync_delete_rows s ts w n rows))"
  by (induction rows arbitrary: w n)
     (simp_all add: sync_delete_rows_Cons del: sync_delete_rows.simps(2))

lemma sync_delete_rows_emitted:
  "map (\<lambda>row. record_of s (dict_setitem row SDC_DELETED_AT (deleted_at ts)))
       (take (length (emitted (sync_delete_rows s ts w n rows))) rows)
     = emitted (sync_delete_rows s ts w n rows)"
  by (induction rows arbitrary: w n)
     (simp_all add: sync_delete_rows_Cons del: sync_delete_rows.simps(2))

lemma sync_delete_rows_length:
  "length (emitted (sync_delete_rows s ts w n rows)) \<le> length rows"
  by (induction rows arbitrary: w n)
     (simp_all add: sync_delete_rows_Cons del: sync_delete_rows.simps(2))

lemma sync_delete_rows_complete:
  "raised (sync_delete_rows s ts w n rows) = None \<Longrightarrow>
     length (emitted (sync_delete_rows s ts w n rows)) = length rows"
  by (induction rows arbitrary: w n)
     (simp_all add: sync_delete_rows_Cons del: sync_delete_rows.simps(2) split: if_splits)

lemma sync_delete_rows_store: "store_of (sync_delete_rows s ts w n rows) = w"
  by (induction rows arbitrary: w n)
     (simp_all add: sync_delete_rows_Cons del: sync_delete_rows.simps(2))

lemma sync_rows_emitted:
  "map (record_of s) (take (length (emitted (sync_rows s w n ev))) (row_values ev))
     = emitted (sync_rows s w n ev)"
proof (cases ev)
  case (RotateEvent nb pos)
  then show ?thesis by simp
next
  case (WriteRowsEvent sc tb ts rows)
  then show ?thesis by (simp add: sync_write_rows_emitted)
next
  case (UpdateRowsEvent sc tb ts rows)
  then show ?thesis
    using sync_update_rows_emitted [of s w n rows] by (simp add: take_map comp_def)
next
  case (DeleteRowsEvent sc tb ts rows)
  then show ?thesis
    using sync_delete_rows_emitted [of s ts w n rows] by (simp add: take_map comp_def)
qed

lemma sync_rows_count:
  "rows_saved (sync_rows s w n ev) = n + length (emitted (sync_rows s w n ev))"
  by (cases ev)
     (simp_all add: sync_write_rows_count sync_update_rows_count sync_delete_rows_count)

lemma sync_rows_length:
  "length (emitted (sync_rows s w n ev)) \<le> length (row_values ev)"
  by (cases ev)
     (simp_all add: sync_write_rows_length sync_update_rows_length sync_delete_rows_length)

lemma sync_rows_complete:
  "raised (sync_rows s w n ev) = None \<Longrightarrow>
     length (emitted (sync_rows s w n ev)) = length (row_values ev)"
  by (cases ev)
     (simp_all add: sync_write_rows_complete sync_update_rows_complete
        sync_delete_rows_complete)

lemma sync_rows_store:
  "store_of (sync_rows s w n ev) = w
   \<or> store_of (sync_rows s w n ev)
       = write_bookmark w (state s) (tap_stream_id (catalog_entry s)) ''log_file'' (log_file s)"
  by (cases ev)
     (simp_all add: sync_write_rows_store sync_update_rows_store sync_delete_rows_store)

lemma sync_rows_next_addr: "next_addr (store_of (sync_rows s w n ev)) = next_addr w"
  using sync_rows_store [of s w n ev] by (auto simp: next_addr_write_bookmark)

lemma sync_rows_heap_other:
  "a \<noteq> state s \<Longrightarrow> heap (store_of (sync_rows s w n ev)) a = heap w a"
  using sync_rows_store [of s w n ev] by (auto simp: heap_write_bookmark_other)

lemma sync_rows_records: "m \<in> set (emitted (sync_rows s w n ev)) \<Longrightarrow> \<exists>vals. m = record_of s vals"
proof -
  assume "m \<in> set (emitted (sync_rows s w n ev))"
  then have "m \<in> set (map (record_of s)
                 (take (length (emitted (sync_rows s w n ev))) (row_values ev)))"
    by (simp only: sync_rows_emitted)
  then show ?thesis by auto
qed

text \<open>One iteration, case by case.\<close>

lemma emitted_yield_state:
  "emitted (yield_state s r) = emitted r @ [StateMessage (next_addr (store_of r))]"
  and next_addr_yield_state: "next_addr (store_of (yield_state s r)) = Suc (next_addr (store_of r))"
  and rows_saved_yield_state: "rows_saved (yield_state s r) = rows_saved r"
  and raised_yield_state: "raised (yield_state s r) = raised r"
  and heap_yield_state: "heap (store_of (yield_state s r))
        = (heap (store_of r))(next_addr (store_of r) := heap (store_of r) (state s))"
  by (simp_all add: yield_state_def deepcopy_def)

lemma process_event_rotate:
  "\<not> skipped s p \<Longrightarrow> event p = RotateEvent nb pos \<Longrightarrow>
     process_event s w n p =
       yield_state s \<lparr>emitted = [],
         store_of = write_bookmark
           (write_bookmark w (state s) (tap_stream_id (catalog_entry s)) ''log_file'' (PStr nb))
           (state s) (tap_stream_id (catalog_entry s)) ''log_pos'' (PInt pos),
         rows_saved = n, raised = None\<rparr>"
  by (simp add: process_event_def)

lemma process_event_untracked:
  "\<not> skipped s p \<Longrightarrow> \<not> is_RotateEvent (event p) \<Longrightarrow> \<not> tracked s (event p) \<Longrightarrow>
     process_event s w n p =
       yield_state s \<lparr>emitted = [], store_of = w, rows_saved = n, raised = None\<rparr>"
  by (cases "event p") (simp_all add: process_event_def)

lemma process_event_raised:
  "\<not> skipped s p \<Longrightarrow> \<not> is_RotateEvent (event p) \<Longrightarrow> tracked s (event p) \<Longrightarrow>
   raised (sync_rows s w n (event p)) = Some e \<Longrightarrow>
     process_event s w n p = sync_rows s w n (event p)"
  by (cases "event p") (simp_all add: process_event_def Let_def)

lemma process_event_tracked:
  "\<not> skipped s p \<Longrightarrow> \<not> is_RotateEvent (event p) \<Longrightarrow> tracked s (event p) \<Longrightarrow>
   raised (sync_rows s w n (event p)) = None \<Longrightarrow>
     process_event s w n p =
       (let r2 = (sync_rows s w n (event p))
                   \<lparr>store_of := advance s p (store_of (sync_rows s w n (event p)))\<rparr>
        in yield_state s
             (if rows_saved r2 mod UPDATE_BOOKMARK_PERIOD = 0 then yield_state s r2 else r2))"
  by (cases "event p") (simp_all add: process_event_def Let_def advance_def)

subsection \<open>The skip of the resume boundary\<close>

text \<open>
  Claim C1. An event pulled while the reader stands at the bookmark the session read from
  the state at its start is discarded: its iteration yields no message and leaves the
  store and the row counter as they were. The comparison is made at every iteration, so
  such an event can be taken out of the stream at any place, after any events and before
  any others, and the whole run of \<open>sync_table\<close> (messages, store, exception) is the same.
\<close>

theorem skipped_event_is_discarded:
  assumes "PStr (reader_log_file p) = get_bookmark w st (tap_stream_id ce) ''log_file''"
      and "PInt (reader_log_pos p) = get_bookmark w st (tap_stream_id ce) ''log_pos''"
      and "log_file s = get_bookmark w st (tap_stream_id ce) ''log_file''"
      and "log_pos s = get_bookmark w st (tap_stream_id ce) ''log_pos''"
  shows "process_event s w' n p
           = \<lparr>emitted = [], store_of = w', rows_saved = n, raised = None\<rparr>
       \<and> sync_table (env\<lparr>binlog_stream := \<lambda>_ _ _. before @ p # after\<rparr>) ce w st cols
           = sync_table (env\<lparr>binlog_stream := \<lambda>_ _ _. before @ after\<rparr>) ce w st cols"
proof
  from assms have "skipped s p"
    by (simp add: skipped_def)
  then show "process_event s w' n p
               = \<lparr>emitted = [], store_of = w', rows_saved = n, raised = None\<rparr>"
    by (rule process_event_skipped)
next
  have "sync_events s' w' n' (before @ p # after) = sync_events s' w' n' (before @ after)"
    if "log_file s' = get_bookmark w st (tap_stream_id ce) ''log_file''"
      and "log_pos s' = get_bookmark w st (tap_stream_id ce) ''log_pos''" for s' w' n'
    using that assms(1,2) by (intro sync_events_drop_skipped) (simp add: skipped_def)
  then show "sync_table (env\<lparr>binlog_stream := \<lambda>_ _ _. before @ p # after\<rparr>) ce w st cols
           = sync_table (env\<lparr>binlog_stream := \<lambda>_ _ _. before @ after\<rparr>) ce w st cols"
    by (simp add: sync_table_def Let_def verify_binlog_config_def verify_log_file_exists_def
          cong: sum.case_cong)
qed

theorem skipped_event_is_discarded_witness:
  "PStr (reader_log_file ex_boundary) = get_bookmark ex_store 0 (tap_stream_id ex_ce) ''log_file''
   \<and> PInt (reader_log_pos ex_boundary) = get_bookmark ex_store 0 (tap_stream_id ex_ce) ''log_pos''
   \<and> log_file ex_session = get_bookmark ex_store 0 (tap_stream_id ex_ce) ''log_file''
   \<and> log_pos ex_session = get_bookmark ex_store 0 (tap_stream_id ex_ce) ''log_pos''
   \<and> process_event ex_session ex_store 0 ex_boundary
        = \<lparr>emitted = [], store_of = ex_store, rows_saved = 0, raised = None\<rparr>
   \<and> sync_table (ex_env\<lparr>binlog_stream := \<lambda>_ _ _. [ex_write] @ ex_boundary # [ex_rotate]\<rparr>)
         ex_ce ex_store 0 ex_columns
       = sync_table (ex_env\<lparr>binlog_stream := \<lambda>_ _ _. [ex_write] @ [ex_rotate]\<rparr>)
           ex_ce ex_store 0 ex_columns"
proof -
  have h1: "PStr (reader_log_file ex_boundary)
              = get_bookmark ex_store 0 (tap_stream_id ex_ce) ''log_file''"
    by (simp add: ex_bookmark ex_boundary_def)
  have h2: "PInt (reader_log_pos ex_boundary)
              = get_bookmark ex_store 0 (tap_stream_id ex_ce) ''log_pos''"
    by (simp add: ex_bookmark ex_boundary_def)
  have h3: "log_file ex_session = get_bookmark ex_store 0 (tap_stream_id ex_ce) ''log_file''"
    by (simp add: ex_bookmark ex_session_def)
  have h4: "log_pos ex_session = get_bookmark ex_store 0 (tap_stream_id ex_ce) ''log_pos''"
    by (simp add: ex_bookmark ex_session_def)
  show ?thesis
    using h1 h2 h3 h4
      skipped_event_is_discarded [OF h1 h2 h3 h4, where w' = ex_store and n = 0
        and env = ex_env and before = "[ex_write]" and after = "[ex_rotate]"
        and cols = ex_columns]
    by simp
qed

subsection \<open>One iteration of the loop\<close>

lemma process_event_cases [case_names skipped rotate untracked raised tracked]:
  obtains "skipped s p"
  | nb pos where "\<not> skipped s p" and "event p = RotateEvent nb pos"
  | "\<not> skipped s p" and "\<not> is_RotateEvent (event p)" and "\<not> tracked s (event p)"
  | e where "\<not> skipped s p" and "\<not> is_RotateEvent (event p)" and "tracked s (event p)"
      and "raised (sync_rows s w n (event p)) = Some e"
  | "\<not> skipped s p" and "\<not> is_RotateEvent (event p)" and "tracked s (event p)"
      and "raised (sync_rows s w n (event p)) = None"
  by (cases "event p"; cases "raised (sync_rows s w n (event p))") auto

lemma get_bookmark_advance:
  "get_bookmark (advance s p w) (state s) (tap_stream_id (catalog_entry s)) ''log_file''
     = PStr (reader_log_file p)"
  "get_bookmark (advance s p w) (state s) (tap_stream_id (catalog_entry s)) ''log_pos''
     = PInt (reader_log_pos p)"
  by (simp_all add: advance_def write_bookmark_def get_bookmark_def)

lemma heap_advance_sync_rows:
  "heap (advance s p (store_of (sync_rows s w n ev))) (state s) = heap (advance s p w) (state s)"
  using sync_rows_store [of s w n ev]
  by (auto simp: advance_def write_bookmark_twice)

lemma heap_yield_state_live:
  "heap (store_of (yield_state s r)) (state s) = heap (store_of r) (state s)"
  by (simp add: heap_yield_state)

lemma process_event_tracked_heap:
  assumes "\<not> skipped s p" "\<not> is_RotateEvent (event p)" "tracked s (event p)"
    and "raised (sync_rows s w n (event p)) = None"
  shows "heap (store_of (process_event s w n p)) (state s) = heap (advance s p w) (state s)"
  using assms
  by (simp add: process_event_tracked Let_def heap_yield_state_live heap_advance_sync_rows)

subsection \<open>The bookmark after an event of the tracked table\<close>

lemma get_bookmark_Some:
  "get_bookmark w a sid key = PStr x \<Longrightarrow> heap w a sid key = Some (PStr x)"
  "get_bookmark w a sid key = PInt i \<Longrightarrow> heap w a sid key = Some (PInt i)"
  by (simp_all add: get_bookmark_def split: option.splits)

lemma skipped_at_start:
  assumes "skipped s p" and "at_start s w"
  shows "heap (advance s p w) (state s) = heap w (state s)"
proof -
  let ?sid = "tap_stream_id (catalog_entry s)"
  from assms have "get_bookmark w (state s) ?sid ''log_file'' = PStr (reader_log_file p)"
    and "get_bookmark w (state s) ?sid ''log_pos'' = PInt (reader_log_pos p)"
    by (simp_all add: skipped_def at_start_def)
  then have f: "heap w (state s) ?sid ''log_file'' = Some (PStr (reader_log_file p))"
    and p: "heap w (state s) ?sid ''log_pos'' = Some (PInt (reader_log_pos p))"
    by (simp_all add: get_bookmark_Some)
  have "(heap w (state s) ?sid)(''log_file'' \<mapsto> PStr (reader_log_file p),
          ''log_pos'' \<mapsto> PInt (reader_log_pos p)) = heap w (state s) ?sid"
    using f p by (auto simp: fun_eq_iff)
  then show ?thesis
    by (simp add: advance_def write_bookmark_def)
qed

text \<open>
  Claim C3. When an event of the tracked table (write, update or delete) has been
  processed and all its rows were converted, the bookmark's \<open>log_file\<close> and
  \<open>log_pos\<close> in the state are the reader's coordinates, and the state object is
  exactly what the two writes of lines 202--210 make of the object the iteration started
  with: the write of \<open>log_file\<close> inside the loop over the rows of a write event leaves
  no trace. This holds for every event that passes the comparison of line 149; it also
  holds for an event that comparison discards at the resume boundary, where the
  bookmark is still the one the session started from, which is the reader's position.
\<close>

theorem bookmark_follows_reader:
  assumes "\<not> is_RotateEvent (event p)" and "tracked s (event p)"
    and "raised (process_event s w n p) = None"
    and "\<not> skipped s p \<or> at_start s w"
  shows "get_bookmark (store_of (process_event s w n p)) (state s)
           (tap_stream_id (catalog_entry s)) ''log_file'' = PStr (reader_log_file p)
       \<and> get_bookmark (store_of (process_event s w n p)) (state s)
           (tap_stream_id (catalog_entry s)) ''log_pos'' = PInt (reader_log_pos p)
       \<and> heap (store_of (process_event s w n p)) (state s) = heap (advance s p w) (state s)"
proof -
  have live: "heap (store_of (process_event s w n p)) (state s) = heap (advance s p w) (state s)"
  proof (cases "skipped s p")
    case True
    with assms(4) have "heap (advance s p w) (state s) = heap w (state s)"
      by (simp add: skipped_at_start)
    with True show ?thesis
      by (simp add: process_event_skipped)
  next
    case False
    have ok: "raised (sync_rows s w n (event p)) = None"
    proof (cases "raised (sync_rows s w n (event p))")
      case None
      then show ?thesis .
    next
      case (Some e)
      with False assms(1,2) have "process_event s w n p = sync_rows s w n (event p)"
        by (rule process_event_raised)
      with assms(3) Some show ?thesis by simp
    qed
    with False assms(1,2) show ?thesis
      by (rule process_event_tracked_heap)
  qed
  then have "get_bookmark (store_of (process_event s w n p)) (state s) sid key
               = get_bookmark (advance s p w) (state s) sid key" for sid key
    by (simp add: get_bookmark_def)
  with live show ?thesis
    by (simp add: get_bookmark_advance)
qed

theorem bookmark_follows_reader_witness:
  "\<not> is_RotateEvent (event ex_write) \<and> tracked ex_session (event ex_write)
   \<and> raised (process_event ex_session ex_store 0 ex_write) = None
   \<and> \<not> skipped ex_session ex_write
   \<and> get_bookmark (store_of (process_event ex_session ex_store 0 ex_write)) 0 ''db-t''
         ''log_file'' = PStr ''bin.000005''
   \<and> get_bookmark (store_of (process_event ex_session ex_store 0 ex_write)) 0 ''db-t''
         ''log_pos'' = PInt 340"
proof -
  have h1: "\<not> is_RotateEvent (event ex_write)"
    by (simp add: ex_defs)
  have h2: "tracked ex_session (event ex_write)"
    by (simp add: tracked_def ex_defs)
  have h3: "raised (process_event ex_session ex_store 0 ex_write) = None"
    by (simp add: ex_defs run_defs)
  have h4: "\<not> skipped ex_session ex_write"
    by (simp add: skipped_def ex_defs)
  then have h4': "\<not> skipped ex_session ex_write \<or> at_start ex_session ex_store"
    by simp
  show ?thesis
    using h1 h2 h3 h4 bookmark_follows_reader [OF h1 h2 h3 h4']
    by (simp add: ex_session_def ex_ce_def ex_write_def)
qed

subsection \<open>Events of other tables, and rotations\<close>

lemma process_event_untracked_any:
  assumes "\<not> is_RotateEvent (event p)" and "\<not> tracked s (event p)"
  shows "process_event s w n p
           = (if skipped s p
              then \<lparr>emitted = [], store_of = w, rows_saved = n, raised = None\<rparr>
              else yield_state s \<lparr>emitted = [], store_of = w, rows_saved = n, raised = None\<rparr>)"
  using assms by (simp add: process_event_skipped process_event_untracked)

text \<open>
  Claim C4. An event that is not a rotation and whose \<open>(schema, table)\<close> is not the
  tracked \<open>(database, stream)\<close> leaves the state object as it was and yields no record
  message, whatever its kind (it yields the state message of line 215 unless it was
  skipped). After a rotation the bookmark's \<open>log_file\<close> and \<open>log_pos\<close> are the
  rotation's \<open>next_binlog\<close> and \<open>position\<close>, and no table is looked at: a rotation that
  passes the comparison of line 149 writes them; the rotation replayed at the resume
  boundary, whose target is the reader's position, finds them in the bookmark the
  session started from.
\<close>

theorem other_tables_leave_bookmark:
  "(\<not> is_RotateEvent (event p) \<and> \<not> tracked s (event p) \<longrightarrow>
      heap (store_of (process_event s w n p)) (state s) = heap w (state s)
      \<and> (\<forall>m\<in>set (emitted (process_event s w n p)). \<not> is_record m))
   \<and> (event p = RotateEvent nb pos
        \<and> (\<not> skipped s p
             \<or> at_start s w \<and> reader_log_file p = nb \<and> reader_log_pos p = pos) \<longrightarrow>
      get_bookmark (store_of (process_event s w n p)) (state s)
        (tap_stream_id (catalog_entry s)) ''log_file'' = PStr nb
      \<and> get_bookmark (store_of (process_event s w n p)) (state s)
        (tap_stream_id (catalog_entry s)) ''log_pos'' = PInt pos)"
proof (intro conjI impI)
  assume a: "\<not> is_RotateEvent (event p) \<and> \<not> tracked s (event p)"
  then show "heap (store_of (process_event s w n p)) (state s) = heap w (state s)"
    by (simp add: process_event_untracked_any heap_yield_state_live)
  from a show "\<forall>m\<in>set (emitted (process_event s w n p)). \<not> is_record m"
    by (simp add: process_event_untracked_any emitted_yield_state)
next
  assume a: "event p = RotateEvent nb pos
        \<and> (\<not> skipped s p
             \<or> at_start s w \<and> reader_log_file p = nb \<and> reader_log_pos p = pos)"
  have "get_bookmark (store_of (process_event s w n p)) (state s)
          (tap_stream_id (catalog_entry s)) ''log_file'' = PStr nb
      \<and> get_bookmark (store_of (process_event s w n p)) (state s)
          (tap_stream_id (catalog_entry s)) ''log_pos'' = PInt pos"
  proof (cases "skipped s p")
    case True
    with a have "at_start s w" and "reader_log_file p = nb" and "reader_log_pos p = pos"
      by simp_all
    with True show ?thesis
      by (simp add: process_event_skipped skipped_def at_start_def)
  next
    case False
    with a have eq: "process_event s w n p =
       yield_state s \<lparr>emitted = [],
         store_of = write_bookmark
           (write_bookmark w (state s) (tap_stream_id (catalog_entry s)) ''log_file'' (PStr nb))
           (state s) (tap_stream_id (catalog_entry s)) ''log_pos'' (PInt pos),
         rows_saved = n, raised = None\<rparr>"
      by (simp add: process_event_rotate)
    show ?thesis
      unfolding eq by (simp add: get_bookmark_def heap_yield_state_live write_bookmark_def)
  qed
  then show "get_bookmark (store_of (process_event s w n p)) (state s)
        (tap_stream_id (catalog_entry s)) ''log_file'' = PStr nb"
    and "get_bookmark (store_of (process_event s w n p)) (state s)
        (tap_stream_id (catalog_entry s)) ''log_pos'' = PInt pos"
    by simp_all
qed

theorem other_tables_leave_bookmark_witness:
  "\<not> is_RotateEvent (event ex_other) \<and> \<not> tracked ex_session (event ex_other)
   \<and> heap (store_of (process_event ex_session ex_store 0 ex_other)) 0 = heap ex_store 0
   \<and> emitted (process_event ex_session ex_store 0 ex_other) = [StateMessage 1]
   \<and> event ex_rotate = RotateEvent ''bin.000006'' 4 \<and> \<not> skipped ex_session ex_rotate
   \<and> get_bookmark (store_of (process_event ex_session ex_store 0 ex_rotate)) 0 ''db-t''
        ''log_file'' = PStr ''bin.000006''
   \<and> get_bookmark (store_of (process_event ex_session ex_store 0 ex_rotate)) 0 ''db-t''
        ''log_pos'' = PInt 4
   \<and> event ex_boundary = RotateEvent ''bin.000005'' 120 \<and> skipped ex_session ex_boundary
   \<and> at_start ex_session ex_store
   \<and> get_bookmark (store_of (process_event ex_session ex_store 0 ex_boundary)) 0 ''db-t''
        ''log_file'' = PStr ''bin.000005''
   \<and> get_bookmark (store_of (process_event ex_session ex_store 0 ex_boundary)) 0 ''db-t''
        ''log_pos'' = PInt 120"
proof -
  have h1: "\<not> is_RotateEvent (event ex_other) \<and> \<not> tracked ex_session (event ex_other)"
    by (simp add: tracked_def ex_defs)
  have h2: "event ex_rotate = RotateEvent ''bin.000006'' 4 \<and> \<not> skipped ex_session ex_rotate"
    by (simp add: skipped_def ex_defs)
  have h3: "event ex_boundary = RotateEvent ''bin.000005'' 120 \<and> skipped ex_session ex_boundary
      \<and> at_start ex_session ex_store
      \<and> reader_log_file ex_boundary = ''bin.000005'' \<and> reader_log_pos ex_boundary = 120"
    by (simp add: skipped_def at_start_def get_bookmark_def ex_defs)
  have e: "emitted (process_event ex_session ex_store 0 ex_other) = [StateMessage 1]"
    by (simp add: ex_defs run_defs)
  show ?thesis
    using h1 h2 h3 e
      other_tables_leave_bookmark [where p = ex_other and s = ex_session and w = ex_store
        and n = 0]
      other_tables_leave_bookmark [where p = ex_rotate and s = ex_session and w = ex_store
        and n = 0 and nb = "''bin.000006''" and pos = 4]
      other_tables_leave_bookmark [where p = ex_boundary and s = ex_session and w = ex_store
        and n = 0 and nb = "''bin.000005''" and pos = 120]
    by (simp add: ex_session_def ex_ce_def)
qed

subsection \<open>Events whose rows are all converted\<close>

lemma sync_write_rows_no_raise:
  "\<forall>vals\<in>set rows. dict_of_items (filter (\<lambda>(k, v). k \<in> set (columns s)) vals) \<noteq> [] \<Longrightarrow>
     raised (sync_write_rows s w n rows) = None"
  by (induction rows arbitrary: w n)
     (simp_all add: sync_write_rows_Cons del: sync_write_rows.simps(2))

lemma sync_update_rows_no_raise:
  "\<forall>row\<in>set rows. dict_of_items (filter (\<lambda>(k, v). k \<in> set (columns s)) (snd row)) \<noteq> [] \<Longrightarrow>
     raised (sync_update_rows s w n rows) = None"
  by (induction rows arbitrary: w n)
     (simp_all add: sync_update_rows_Cons del: sync_update_rows.simps(2))

lemma sync_delete_rows_no_raise:
  "\<forall>row\<in>set rows. dict_of_items (filter (\<lambda>(k, v). k \<in> set (columns s))
       (dict_setitem row SDC_DELETED_AT (deleted_at ts))) \<noteq> [] \<Longrightarrow>
     raised (sync_delete_rows s ts w n rows) = None"
  by (induction rows arbitrary: w n)
     (simp_all add: sync_delete_rows_Cons del: sync_delete_rows.simps(2))

lemma sync_rows_no_raise:
  "\<forall>vals\<in>set (row_values ev).
      dict_of_items (filter (\<lambda>(k, v). k \<in> set (columns s)) vals) \<noteq> [] \<Longrightarrow>
     raised (sync_rows s w n ev) = None"
  by (cases ev)
     (simp_all add: sync_write_rows_no_raise sync_update_rows_no_raise
        sync_delete_rows_no_raise)

lemma sync_rows_all_emitted:
  assumes "raised (sync_rows s w n ev) = None"
  shows "emitted (sync_rows s w n ev) = map (record_of s) (row_values ev)"
proof -
  have "length (emitted (sync_rows s w n ev)) = length (row_values ev)"
    using assms by (rule sync_rows_complete)
  then have "map (record_of s) (take (length (emitted (sync_rows s w n ev))) (row_values ev))
               = map (record_of s) (row_values ev)"
    by simp
  then show ?thesis
    by (simp only: sync_rows_emitted)
qed

lemma process_event_tracked_emitted:
  assumes "\<not> skipped s p" and "\<not> is_RotateEvent (event p)" and "tracked s (event p)"
    and "raised (sync_rows s w n (event p)) = None"
  shows "emitted (process_event s w n p)
           = map (record_of s) (row_values (event p))
             @ (if (n + length (row_values (event p))) mod UPDATE_BOOKMARK_PERIOD = 0
                then [StateMessage (next_addr w), StateMessage (Suc (next_addr w))]
                else [StateMessage (next_addr w)])"
    and "rows_saved (process_event s w n p) = n + length (row_values (event p))"
    and "raised (process_event s w n p) = None"
proof -
  have len: "length (emitted (sync_rows s w n (event p))) = length (row_values (event p))"
    using assms(4) by (rule sync_rows_complete)
  have cnt: "rows_saved (sync_rows s w n (event p)) = n + length (row_values (event p))"
    using len by (simp add: sync_rows_count)
  have em: "emitted (sync_rows s w n (event p)) = map (record_of s) (row_values (event p))"
    using assms(4) by (rule sync_rows_all_emitted)
  have nx: "next_addr (advance s p (store_of (sync_rows s w n (event p)))) = next_addr w"
    by (simp add: advance_def next_addr_write_bookmark sync_rows_next_addr)
  show "emitted (process_event s w n p)
           = map (record_of s) (row_values (event p))
             @ (if (n + length (row_values (event p))) mod UPDATE_BOOKMARK_PERIOD = 0
                then [StateMessage (next_addr w), StateMessage (Suc (next_addr w))]
                else [StateMessage (next_addr w)])"
    using assms
    by (simp add: process_event_tracked Let_def emitted_yield_state next_addr_yield_state
          cnt em nx)
  show "rows_saved (process_event s w n p) = n + length (row_values (event p))"
    using assms
    by (simp add: process_event_tracked Let_def rows_saved_yield_state cnt)
  show "raised (process_event s w n p) = None"
    using assms
    by (simp add: process_event_tracked Let_def raised_yield_state)
qed

lemma process_event_raised_iff:
  assumes "\<not> skipped s p" and "\<not> is_RotateEvent (event p)" and "tracked s (event p)"
  shows "raised (process_event s w n p) = raised (sync_rows s w n (event p))"
proof (cases "raised (sync_rows s w n (event p))")
  case None
  with assms show ?thesis by (simp add: process_event_tracked_emitted(3))
next
  case (Some e)
  with assms show ?thesis by (simp add: process_event_raised)
qed

subsection \<open>The threshold state message\<close>

text \<open>
  Claim C2, as the spec states it, fails: the counter is compared with the period once per
  event, at line 212, after the loop over the rows and after the bookmark has been set,
  not after each row. In a session that receives its 2500 rows in one write event, the
  2500 record messages follow one another and the only state message is the one of
  line 215 at the end: nothing is emitted after row 1000 or row 2000.
\<close>

theorem threshold_checkpoint_counterexample:
  "emitted (sync_table ex_bulk_env ex_ce ex_store 0 ex_columns)
     = ActivateVersionMessage ''t'' 7
       # replicate 2500 (RecordMessage ''t'' [(''id'', PInt 1)] 7 (Datetime 1700000100 (Some UTC)))
       @ [StateMessage 1]"
proof -
  let ?s = "\<lparr>catalog_entry = ex_ce, state = 0, columns = ex_columns,
             log_file = PStr ''bin.000005'', log_pos = PInt 120,
             stream_version = 7, time_extracted = Datetime 1700000100 (Some UTC)\<rparr>"
  let ?w = "write_bookmark ex_store 0 ''db-t'' ''version'' (PInt 7)"
  have start: "sync_table ex_bulk_env ex_ce ex_store 0 ex_columns
          = yield_first (ActivateVersionMessage ''t'' 7) (sync_events ?s ?w 0 [ex_bulk])"
    by (simp add: sync_table_def verify_binlog_config_def verify_log_file_exists_def
          ex_bulk_env_def ex_env_def ex_ce_def ex_store_def get_bookmark_def Let_def)
  have h1: "\<not> skipped ?s ex_bulk"
    by (simp add: skipped_def ex_bulk_def)
  have h2: "\<not> is_RotateEvent (event ex_bulk)"
    by (simp add: ex_bulk_def)
  have h3: "tracked ?s (event ex_bulk)"
    by (simp add: tracked_def ex_bulk_def ex_ce_def)
  have h4: "raised (sync_rows ?s ?w 0 (event ex_bulk)) = None"
    by (rule sync_rows_no_raise)
       (simp add: ex_bulk_def ex_columns_def add_automatic_properties_def dict_of_items_def)
  have rec: "record_of ?s [(''id'', PInt 1)]
               = RecordMessage ''t'' [(''id'', PInt 1)] 7 (Datetime 1700000100 (Some UTC))"
    by (simp add: record_of_def ex_ce_def ex_columns_def add_automatic_properties_def
          dict_of_items_def)
  have "emitted (process_event ?s ?w 0 ex_bulk)
          = replicate 2500 (RecordMessage ''t'' [(''id'', PInt 1)] 7
              (Datetime 1700000100 (Some UTC))) @ [StateMessage 1]"
    unfolding process_event_tracked_emitted(1) [OF h1 h2 h3 h4]
    by (simp add: ex_bulk_def rec UPDATE_BOOKMARK_PERIOD_def next_addr_write_bookmark
          ex_store_def)
  moreover have "raised (process_event ?s ?w 0 ex_bulk) = None"
    by (rule process_event_tracked_emitted(3) [OF h1 h2 h3 h4])
  ultimately show ?thesis
    unfolding start by (simp add: Let_def)
qed

text \<open>
  Claim C2, amended. An event of the tracked table that is processed (it passed the
  comparison of line 149 and all its rows were converted) yields one record message for
  each of its rows, and only then its state messages: the threshold state message when
  the counter, which has grown by the number of rows of the event, is a multiple of
  \<open>UPDATE_BOOKMARK_PERIOD\<close>, followed by the state message every processed event
  yields. The counter is thus compared once per event.
\<close>

theorem threshold_checked_once_per_event:
  assumes "\<not> skipped s p" and "\<not> is_RotateEvent (event p)" and "tracked s (event p)"
    and "raised (process_event s w n p) = None"
  shows "rows_saved (process_event s w n p) = n + length (row_values (event p))
       \<and> emitted (process_event s w n p)
           = map (record_of s) (row_values (event p))
             @ (if rows_saved (process_event s w n p) mod UPDATE_BOOKMARK_PERIOD = 0
                then [StateMessage (next_addr w), StateMessage (Suc (next_addr w))]
                else [StateMessage (next_addr w)])"
proof -
  from assms have ok: "raised (sync_rows s w n (event p)) = None"
    by (simp add: process_event_raised_iff)
  show ?thesis
    using process_event_tracked_emitted(1,2) [OF assms(1-3) ok] by simp
qed

theorem threshold_checked_once_per_event_witness:
  "\<not> skipped ex_session ex_write \<and> \<not> is_RotateEvent (event ex_write)
   \<and> tracked ex_session (event ex_write)
   \<and> raised (process_event ex_session ex_store 999 ex_write) = None
   \<and> rows_saved (process_event ex_session ex_store 999 ex_write) = 1000
   \<and> emitted (process_event ex_session ex_store 999 ex_write)
       = [RecordMessage ''t'' [(''id'', PInt 1), (''name'', PStr ''a'')] 7
            (Datetime 1700000100 (Some UTC)), StateMessage 1, StateMessage 2]"
proof -
  have h1: "\<not> skipped ex_session ex_write"
    by (simp add: skipped_def ex_defs)
  have h2: "\<not> is_RotateEvent (event ex_write)"
    by (simp add: ex_defs)
  have h3: "tracked ex_session (event ex_write)"
    by (simp add: tracked_def ex_defs)
  have h4: "raised (process_event ex_session ex_store 999 ex_write) = None"
    by (simp add: ex_defs run_defs)
  show ?thesis
    using h1 h2 h3 h4 threshold_checked_once_per_event [OF h1 h2 h3 h4]
    by (simp add: ex_defs record_of_def dict_of_items_def UPDATE_BOOKMARK_PERIOD_def)
qed

subsection \<open>The records of a row event\<close>

lemma is_record_record_of [simp]: "is_record (record_of s vals)"
  by (simp add: record_of_def)

lemma filter_is_record_records [simp]:
  "filter is_record (map (record_of s) xs) = map (record_of s) xs"
  by (induction xs) simp_all

lemma filter_is_record_sync_rows:
  "filter is_record (emitted (sync_rows s w n ev)) = emitted (sync_rows s w n ev)"
proof -
  have "filter is_record
          (map (record_of s) (take (length (emitted (sync_rows s w n ev))) (row_values ev)))
        = map (record_of s) (take (length (emitted (sync_rows s w n ev))) (row_values ev))"
    by (rule filter_is_record_records)
  then show ?thesis
    by (simp only: sync_rows_emitted)
qed

lemma process_event_tracked_records:
  assumes "\<not> skipped s p" and "\<not> is_RotateEvent (event p)" and "tracked s (event p)"
  shows "filter is_record (emitted (process_event s w n p)) = emitted (sync_rows s w n (event p))"
    and "rows_saved (process_event s w n p) = rows_saved (sync_rows s w n (event p))"
proof -
  show "filter is_record (emitted (process_event s w n p)) = emitted (sync_rows s w n (event p))"
  proof (cases "raised (sync_rows s w n (event p))")
    case None
    have "emitted (sync_rows s w n (event p)) = map (record_of s) (row_values (event p))"
      using None by (rule sync_rows_all_emitted)
    then show ?thesis
      by (simp add: process_event_tracked_emitted(1) [OF assms None])
  next
    case (Some e)
    with assms show ?thesis
      by (simp add: process_event_raised filter_is_record_sync_rows)
  qed
  show "rows_saved (process_event s w n p) = rows_saved (sync_rows s w n (event p))"
  proof (cases "raised (sync_rows s w n (event p))")
    case None
    have "length (emitted (sync_rows s w n (event p))) = length (row_values (event p))"
      using None by (rule sync_rows_complete)
    then show ?thesis
      by (simp add: process_event_tracked_emitted(2) [OF assms None] sync_rows_count)
  next
    case (Some e)
    with assms show ?thesis
      by (simp add: process_event_raised)
  qed
qed

lemma process_event_tracked_built:
  assumes "\<not> skipped s p" and "\<not> is_RotateEvent (event p)" and "tracked s (event p)"
  shows "filter is_record (emitted (process_event s w n p))
           = map (record_of s) (take (rows_saved (process_event s w n p) - n)
               (row_values (event p)))"
proof -
  have "rows_saved (process_event s w n p) - n = length (emitted (sync_rows s w n (event p)))"
    by (simp add: process_event_tracked_records(2) [OF assms] sync_rows_count)
  then show ?thesis
    by (simp only: process_event_tracked_records(1) [OF assms] sync_rows_emitted)
qed

lemma dict_setitem_member: "(k, v) \<in> set (dict_setitem d k v)"
  by (induction d) auto

lemma deleted_row_not_empty:
  assumes "SDC_DELETED_AT \<in> set (columns s)"
  shows "dict_of_items (filter (\<lambda>(k, v). k \<in> set (columns s))
           (dict_setitem row SDC_DELETED_AT x)) \<noteq> []"
proof -
  have "(SDC_DELETED_AT, x)
          \<in> set (filter (\<lambda>(k, v). k \<in> set (columns s)) (dict_setitem row SDC_DELETED_AT x))"
    using assms by (simp add: dict_setitem_member)
  then have "SDC_DELETED_AT
          \<in> fst ` set (filter (\<lambda>(k, v). k \<in> set (columns s)) (dict_setitem row SDC_DELETED_AT x))"
    by (rule rev_image_eqI) simp
  then have "SDC_DELETED_AT
          \<in> fst ` set (dict_of_items (filter (\<lambda>(k, v). k \<in> set (columns s))
               (dict_setitem row SDC_DELETED_AT x)))"
    by (simp only: keys_dict_of_items)
  then show ?thesis by auto
qed

lemma deleted_row_tagged:
  assumes "SDC_DELETED_AT \<in> set (columns s)" and "distinct (map fst row)"
  shows "map_of (msg_record (record_of s (dict_setitem row SDC_DELETED_AT x))) SDC_DELETED_AT
           = Some x"
proof -
  let ?vals = "dict_setitem row SDC_DELETED_AT x"
  let ?kept = "filter (\<lambda>(k, v). k \<in> set (columns s)) ?vals"
  have "distinct (map fst ?vals)"
    using assms(2) by (rule distinct_dict_setitem)
  then have "distinct (map fst ?kept)"
    by (rule distinct_map_filter)
  then have same: "dict_of_items ?kept = ?kept"
    by (rule dict_of_items_id)
  have "map_of ?vals SDC_DELETED_AT = Some x"
    by (simp add: map_of_dict_setitem)
  then have "map_of (filter (case_prod (\<lambda>k v. k \<in> set (columns s))) ?vals) SDC_DELETED_AT
               = Some x"
    using assms(1) by (rule map_of_filter_in)
  then show ?thesis
    by (simp add: record_of_def same)
qed

text \<open>
  Claim C5, as the spec states it, fails: \<open>row_to_singer_record\<close> keeps the keys of the
  session's column list only, and \<open>_sdc_deleted_at\<close> is filtered like any other key.
  When \<open>sync_table\<close> is given the columns \<open>id\<close> and \<open>name\<close>, the record of a deleted
  row has no \<open>_sdc_deleted_at\<close> field.
\<close>

theorem delete_tagging_counterexample:
  "emitted (sync_table ex_delete_env ex_ce ex_store 0 [''id'', ''name''])
     = [ActivateVersionMessage ''t'' 7,
        RecordMessage ''t'' [(''id'', PInt 1), (''name'', PStr ''b'')] 7
          (Datetime 1700000100 (Some UTC)),
        StateMessage 1]"
  by (simp add: sync_table_def verify_binlog_config_def verify_log_file_exists_def
        ex_delete_env_def ex_defs run_defs)

text \<open>
  Claim C5, amended. For an event of the tracked table that passed the comparison of
  line 149, the record messages are, in order, those of the rows converted before an
  exception, if any, ended the loop (\<open>rows_saved\<close> has grown by their number): built
  from the row's values for a write, and from the after-values alone for an update. For
  a delete, when the column list contains \<open>_sdc_deleted_at\<close> (which
  \<open>add_automatic_properties\<close> appends) and the rows are dictionaries (distinct keys),
  every row is converted, from its values with \<open>_sdc_deleted_at\<close> set, and every record
  message carries under \<open>_sdc_deleted_at\<close> the event's timestamp as a UTC datetime.
\<close>

theorem records_of_row_events:
  assumes "\<not> skipped s p" and "tracked s (event p)"
  shows "(event p = WriteRowsEvent sc tb ts rows \<longrightarrow>
            filter is_record (emitted (process_event s w n p))
              = map (record_of s) (take (rows_saved (process_event s w n p) - n) rows))
       \<and> (event p = UpdateRowsEvent sc tb ts changes \<longrightarrow>
            filter is_record (emitted (process_event s w n p))
              = map (\<lambda>(before_values, after_values). record_of s after_values)
                  (take (rows_saved (process_event s w n p) - n) changes))
       \<and> (event p = DeleteRowsEvent sc tb ts rows \<and> SDC_DELETED_AT \<in> set (columns s)
            \<and> (\<forall>row\<in>set rows. distinct (map fst row)) \<longrightarrow>
            filter is_record (emitted (process_event s w n p))
              = map (\<lambda>row. record_of s (dict_setitem row SDC_DELETED_AT (deleted_at ts))) rows
            \<and> (\<forall>m\<in>set (emitted (process_event s w n p)). is_record m \<longrightarrow>
                  map_of (msg_record m) SDC_DELETED_AT = Some (deleted_at ts)))"
proof (intro conjI impI)
  assume ev: "event p = WriteRowsEvent sc tb ts rows"
  then have "\<not> is_RotateEvent (event p)" by simp
  from process_event_tracked_built [OF assms(1) this assms(2), of w n] ev
  show "filter is_record (emitted (process_event s w n p))
          = map (record_of s) (take (rows_saved (process_event s w n p) - n) rows)"
    by simp
next
  assume ev: "event p = UpdateRowsEvent sc tb ts changes"
  then have "\<not> is_RotateEvent (event p)" by simp
  from process_event_tracked_built [OF assms(1) this assms(2), of w n] ev
  show "filter is_record (emitted (process_event s w n p))
          = map (\<lambda>(before_values, after_values). record_of s after_values)
              (take (rows_saved (process_event s w n p) - n) changes)"
    by (simp add: take_map comp_def case_prod_unfold)
next
  assume a: "event p = DeleteRowsEvent sc tb ts rows \<and> SDC_DELETED_AT \<in> set (columns s)
            \<and> (\<forall>row\<in>set rows. distinct (map fst row))"
  then have ev: "event p = DeleteRowsEvent sc tb ts rows"
    and col: "SDC_DELETED_AT \<in> set (columns s)"
    and dist: "\<forall>row\<in>set rows. distinct (map fst row)"
    by simp_all
  from ev have nr: "\<not> is_RotateEvent (event p)" by simp
  have ok: "raised (sync_rows s w n (event p)) = None"
    by (rule sync_rows_no_raise) (auto simp: ev deleted_row_not_empty [OF col])
  have em: "emitted (process_event s w n p)
           = map (record_of s) (row_values (event p))
             @ (if (n + length (row_values (event p))) mod UPDATE_BOOKMARK_PERIOD = 0
                then [StateMessage (next_addr w), StateMessage (Suc (next_addr w))]
                else [StateMessage (next_addr w)])"
    using assms(1) nr assms(2) ok by (rule process_event_tracked_emitted(1))
  show recs: "filter is_record (emitted (process_event s w n p))
          = map (\<lambda>row. record_of s (dict_setitem row SDC_DELETED_AT (deleted_at ts))) rows"
    unfolding em by (simp add: ev comp_def)
  show "\<forall>m\<in>set (emitted (process_event s w n p)). is_record m \<longrightarrow>
          map_of (msg_record m) SDC_DELETED_AT = Some (deleted_at ts)"
  proof (intro ballI impI)
    fix m
    assume "m \<in> set (emitted (process_event s w n p))" and "is_record m"
    then have "m \<in> set (filter is_record (emitted (process_event s w n p)))"
      by simp
    then obtain row where "row \<in> set rows"
      and m: "m = record_of s (dict_setitem row SDC_DELETED_AT (deleted_at ts))"
      unfolding recs by auto
    with dist have "distinct (map fst row)" by blast
    with col show "map_of (msg_record m) SDC_DELETED_AT = Some (deleted_at ts)"
      unfolding m by (rule deleted_row_tagged)
  qed
qed

theorem records_of_row_events_witness:
  "\<not> skipped ex_session ex_delete \<and> tracked ex_session (event ex_delete)
   \<and> event ex_delete = DeleteRowsEvent ''db'' ''t'' 1700000003
         [[(''id'', PInt 1), (''name'', PStr ''b'')]]
   \<and> SDC_DELETED_AT \<in> set (columns ex_session)
   \<and> distinct (map fst [(''id'', PInt 1), (''name'', PStr ''b'')])
   \<and> filter is_record (emitted (process_event ex_session ex_store 0 ex_delete))
       = [RecordMessage ''t'' [(''id'', PInt 1), (''name'', PStr ''b''),
            (''_sdc_deleted_at'', PDatetime (Datetime 1700000003 (Some UTC)))] 7
            (Datetime 1700000100 (Some UTC))]
   \<and> \<not> skipped ex_session ex_update \<and> tracked ex_session (event ex_update)
   \<and> filter is_record (emitted (process_event ex_session ex_store 0 ex_update))
       = [RecordMessage ''t'' [(''id'', PInt 1), (''name'', PStr ''b'')] 7
            (Datetime 1700000100 (Some UTC))]"
proof -
  have h1: "\<not> skipped ex_session ex_delete" and h1': "\<not> skipped ex_session ex_update"
    by (simp_all add: skipped_def ex_defs)
  have h2: "tracked ex_session (event ex_delete)" and h2': "tracked ex_session (event ex_update)"
    by (simp_all add: tracked_def ex_defs)
  have h3: "event ex_delete = DeleteRowsEvent ''db'' ''t'' 1700000003
         [[(''id'', PInt 1), (''name'', PStr ''b'')]]"
    by (simp add: ex_defs)
  have h4: "SDC_DELETED_AT \<in> set (columns ex_session)"
    by (simp add: ex_defs)
  have h5: "distinct (map fst [(''id'', PInt 1), (''name'', PStr ''b'')])"
    by simp
  have h6: "event ex_update = UpdateRowsEvent ''db'' ''t'' 1700000002
       [([(''id'', PInt 1), (''name'', PStr ''a'')], [(''id'', PInt 1), (''name'', PStr ''b'')])]"
    by (simp add: ex_defs)
  have n: "rows_saved (process_event ex_session ex_store 0 ex_update) = 1"
    by (simp add: ex_defs run_defs)
  show ?thesis
    using h1 h2 h3 h4 h5 h1' h2' h6 n
      records_of_row_events [OF h1 h2, where sc = "''db''" and tb = "''t''"
        and ts = 1700000003 and rows = "[[(''id'', PInt 1), (''name'', PStr ''b'')]]"
        and w = ex_store and n = 0]
      records_of_row_events [OF h1' h2', where sc = "''db''" and tb = "''t''"
        and ts = 1700000002 and w = ex_store and n = 0
        and changes = "[([(''id'', PInt 1), (''name'', PStr ''a'')],
                         [(''id'', PInt 1), (''name'', PStr ''b'')])]"]
    by (simp add: record_of_def dict_of_items_def deleted_at_def ex_session_def ex_ce_def
          ex_columns_def add_automatic_properties_def SDC_DELETED_AT_def)
qed

subsection \<open>The messages of a session\<close>

lemma process_event_messages:
  assumes "m \<in> set (emitted (process_event s w n p))"
  shows "(\<exists>vals. m = record_of s vals) \<or> is_state m"
proof (cases rule: process_event_cases [where s = s and p = p and w = w and n = n])
  case skipped
  with assms show ?thesis by (simp add: process_event_skipped)
next
  case (rotate nb pos)
  with assms show ?thesis by (auto simp: process_event_rotate emitted_yield_state)
next
  case untracked
  with assms show ?thesis by (auto simp: process_event_untracked emitted_yield_state)
next
  case (raised e)
  with assms have "m \<in> set (emitted (sync_rows s w n (event p)))"
    by (simp add: process_event_raised)
  then show ?thesis by (auto dest: sync_rows_records)
next
  case tracked
  from assms have "m \<in> set (map (record_of s) (row_values (event p))) \<or> is_state m"
    unfolding process_event_tracked_emitted(1) [OF tracked] by (auto split: if_splits)
  then show ?thesis by auto
qed

lemma sync_events_messages:
  "m \<in> set (emitted (sync_events s w n ps)) \<Longrightarrow> (\<exists>vals. m = record_of s vals) \<or> is_state m"
proof (induction ps arbitrary: w n)
  case Nil
  then show ?case by simp
next
  case (Cons p ps)
  show ?case
  proof (cases "raised (process_event s w n p)")
    case None
    with Cons.prems
    have "m \<in> set (emitted (process_event s w n p))
          \<or> m \<in> set (emitted (sync_events s (store_of (process_event s w n p))
                 (rows_saved (process_event s w n p)) ps))"
      by (simp add: Let_def)
    then show ?thesis
      using Cons.IH process_event_messages by blast
  next
    case (Some e)
    with Cons.prems have "m \<in> set (emitted (process_event s w n p))"
      by (simp add: Let_def)
    then show ?thesis by (rule process_event_messages)
  qed
qed

text \<open>The locals of \<open>sync_table\<close> once both verifications have passed.\<close>

lemma sync_table_verified:
  assumes "verify_binlog_config env ce = Inr ()"
    and "verify_log_file_exists env ce (get_bookmark w st (tap_stream_id ce) ''log_file'')
           (get_bookmark w st (tap_stream_id ce) ''log_pos'') = Inr ()"
  shows "sync_table env ce w st cols =
     yield_first
       (ActivateVersionMessage (stream ce) (get_stream_version env (tap_stream_id ce) (heap w st)))
       (sync_events
          \<lparr>catalog_entry = ce, state = st, columns = cols,
            log_file = get_bookmark w st (tap_stream_id ce) ''log_file'',
            log_pos = get_bookmark w st (tap_stream_id ce) ''log_pos'',
            stream_version = get_stream_version env (tap_stream_id ce) (heap w st),
            time_extracted = now env\<rparr>
          (write_bookmark w st (tap_stream_id ce) ''version''
             (PInt (get_stream_version env (tap_stream_id ce) (heap w st))))
          0
          (binlog_stream env (server_id env)
             (get_bookmark w st (tap_stream_id ce) ''log_file'')
             (get_bookmark w st (tap_stream_id ce) ''log_pos'')))"
  using assms by (simp add: sync_table_def Let_def)

lemma sync_table_refused:
  assumes "verify_binlog_config env ce = Inl e
     \<or> verify_binlog_config env ce = Inr ()
       \<and> verify_log_file_exists env ce (get_bookmark w st (tap_stream_id ce) ''log_file'')
           (get_bookmark w st (tap_stream_id ce) ''log_pos'') = Inl e"
  shows "sync_table env ce w st cols
           = \<lparr>emitted = [], store_of = w, rows_saved = 0, raised = Some e\<rparr>"
  using assms by (auto simp: sync_table_def Let_def)

lemma sync_table_messages:
  assumes "m \<in> set (emitted (sync_table env ce w st cols))" and "is_record m"
  shows "\<exists>vals. m = RecordMessage (stream ce)
           (dict_of_items (filter (\<lambda>(k, v). k \<in> set cols) vals))
           (get_stream_version env (tap_stream_id ce) (heap w st)) (now env)"
proof (cases "verify_binlog_config env ce")
  case (Inl e)
  then have "sync_table env ce w st cols
           = \<lparr>emitted = [], store_of = w, rows_saved = 0, raised = Some e\<rparr>"
    by (intro sync_table_refused) simp
  with assms show ?thesis by simp
next
  case (Inr u)
  then have v1: "verify_binlog_config env ce = Inr ()" by simp
  show ?thesis
  proof (cases "verify_log_file_exists env ce (get_bookmark w st (tap_stream_id ce) ''log_file'')
           (get_bookmark w st (tap_stream_id ce) ''log_pos'')")
    case (Inl e)
    with v1 have "sync_table env ce w st cols
           = \<lparr>emitted = [], store_of = w, rows_saved = 0, raised = Some e\<rparr>"
      by (intro sync_table_refused) simp
    with assms show ?thesis by simp
  next
    case (Inr u')
    then have v2: "verify_log_file_exists env ce
           (get_bookmark w st (tap_stream_id ce) ''log_file'')
           (get_bookmark w st (tap_stream_id ce) ''log_pos'') = Inr ()" by simp
    let ?s = "\<lparr>catalog_entry = ce, state = st, columns = cols,
            log_file = get_bookmark w st (tap_stream_id ce) ''log_file'',
            log_pos = get_bookmark w st (tap_stream_id ce) ''log_pos'',
            stream_version = get_stream_version env (tap_stream_id ce) (heap w st),
            time_extracted = now env\<rparr>"
    from assms obtain w' n' ps where "m \<in> set (emitted (sync_events ?s w' n' ps))"
      unfolding sync_table_verified [OF v1 v2] by auto
    then have "(\<exists>vals. m = record_of ?s vals) \<or> is_state m"
      by (rule sync_events_messages)
    with assms(2) obtain vals where "m = record_of ?s vals"
      by (cases m) auto
    then show ?thesis
      by (auto simp: record_of_def)
  qed
qed

lemma ex_run:
  "emitted (sync_table ex_env ex_ce ex_store 0 ex_columns)
     = [ActivateVersionMessage ''t'' 7,
        RecordMessage ''t'' [(''id'', PInt 1), (''name'', PStr ''a'')] 7
          (Datetime 1700000100 (Some UTC)),
        StateMessage 1,
        StateMessage 2,
        RecordMessage ''t'' [(''id'', PInt 1), (''name'', PStr ''b'')] 7
          (Datetime 1700000100 (Some UTC)),
        StateMessage 3,
        RecordMessage ''t'' [(''id'', PInt 1), (''name'', PStr ''b''),
            (''_sdc_deleted_at'', PDatetime (Datetime 1700000003 (Some UTC)))] 7
          (Datetime 1700000100 (Some UTC)),
        StateMessage 4,
        StateMessage 5]"
  by (simp add: sync_table_def verify_binlog_config_def verify_log_file_exists_def
        ex_defs run_defs)

lemma ex_verified:
  "verify_binlog_config ex_env ex_ce = Inr ()"
  "verify_log_file_exists ex_env ex_ce (get_bookmark ex_store 0 (tap_stream_id ex_ce) ''log_file'')
     (get_bookmark ex_store 0 (tap_stream_id ex_ce) ''log_pos'') = Inr ()"
  by (simp_all add: verify_binlog_config_def verify_log_file_exists_def ex_bookmark ex_env_def)

text \<open>
  Claim C9. The values of every record message a session emits have only keys of the
  column list \<open>sync_table\<close> was given: a field of a row that is not a column, wherever
  it came from, is not in the record.
\<close>

theorem record_keys_are_columns:
  "\<forall>m\<in>set (emitted (sync_table env ce w st cols)).
     is_record m \<longrightarrow> fst ` set (msg_record m) \<subseteq> set cols"
proof (intro ballI impI)
  fix m
  assume "m \<in> set (emitted (sync_table env ce w st cols))" and "is_record m"
  then obtain vals where "m = RecordMessage (stream ce)
           (dict_of_items (filter (\<lambda>(k, v). k \<in> set cols) vals))
           (get_stream_version env (tap_stream_id ce) (heap w st)) (now env)"
    by (blast dest: sync_table_messages)
  then show "fst ` set (msg_record m) \<subseteq> set cols"
    by (auto simp: keys_dict_of_items)
qed

theorem record_keys_are_columns_witness:
  "RecordMessage ''t'' [(''id'', PInt 1), (''name'', PStr ''a'')] 7
       (Datetime 1700000100 (Some UTC))
     \<in> set (emitted (sync_table ex_env ex_ce ex_store 0 ex_columns))
   \<and> (''secret'', PStr ''x'') \<in> set (hd (write_rows (event ex_write)))
   \<and> fst ` set (msg_record (RecordMessage ''t'' [(''id'', PInt 1), (''name'', PStr ''a'')] 7
       (Datetime 1700000100 (Some UTC)))) \<subseteq> set ex_columns
   \<and> ''secret'' \<notin> set ex_columns"
proof -
  let ?m = "RecordMessage ''t'' [(''id'', PInt 1), (''name'', PStr ''a'')] 7
       (Datetime 1700000100 (Some UTC))"
  have mem: "?m \<in> set (emitted (sync_table ex_env ex_ce ex_store 0 ex_columns))"
    by (simp add: ex_run)
  have "is_record ?m" by simp
  with record_keys_are_columns [of ex_env ex_ce ex_store 0 ex_columns] mem
  have "fst ` set (msg_record ?m) \<subseteq> set ex_columns"
    by blast
  with mem show ?thesis
    by (simp add: ex_defs)
qed

text \<open>
  Claim C10. \<open>utils.now()\<close> is read once, at line 142, before the loop, and never
  again: every record message of a session carries that one reading as its extraction
  time, whatever the number of events and the time they take.
\<close>

theorem one_extraction_time:
  "\<forall>m\<in>set (emitted (sync_table env ce w st cols)).
     is_record m \<longrightarrow> msg_time_extracted m = now env"
proof (intro ballI impI)
  fix m
  assume "m \<in> set (emitted (sync_table env ce w st cols))" and "is_record m"
  then obtain vals where "m = RecordMessage (stream ce)
           (dict_of_items (filter (\<lambda>(k, v). k \<in> set cols) vals))
           (get_stream_version env (tap_stream_id ce) (heap w st)) (now env)"
    by (blast dest: sync_table_messages)
  then show "msg_time_extracted m = now env"
    by simp
qed

theorem one_extraction_time_witness:
  "RecordMessage ''t'' [(''id'', PInt 1), (''name'', PStr ''b''),
       (''_sdc_deleted_at'', PDatetime (Datetime 1700000003 (Some UTC)))] 7
       (Datetime 1700000100 (Some UTC))
     \<in> set (emitted (sync_table ex_env ex_ce ex_store 0 ex_columns))
   \<and> msg_time_extracted (RecordMessage ''t'' [(''id'', PInt 1), (''name'', PStr ''b''),
       (''_sdc_deleted_at'', PDatetime (Datetime 1700000003 (Some UTC)))] 7
       (Datetime 1700000100 (Some UTC))) = now ex_env"
proof -
  let ?m = "RecordMessage ''t'' [(''id'', PInt 1), (''name'', PStr ''b''),
       (''_sdc_deleted_at'', PDatetime (Datetime 1700000003 (Some UTC)))] 7
       (Datetime 1700000100 (Some UTC))"
  have mem: "?m \<in> set (emitted (sync_table ex_env ex_ce ex_store 0 ex_columns))"
    by (simp add: ex_run)
  have "is_record ?m" by simp
  with one_extraction_time [of ex_env ex_ce ex_store 0 ex_columns] mem
  have "msg_time_extracted ?m = now ex_env"
    by blast
  with mem show ?thesis
    by simp
qed

text \<open>
  Claim C7. A session whose configuration is verified emits the
  \<open>ActivateVersionMessage\<close> first, before any record or state message, and no second
  one; every record message carries the version of that message. (A session whose
  verification fails emits nothing at all, see C6.)
\<close>

theorem one_activate_version:
  assumes "verify_binlog_config env ce = Inr ()"
    and "verify_log_file_exists env ce (get_bookmark w st (tap_stream_id ce) ''log_file'')
           (get_bookmark w st (tap_stream_id ce) ''log_pos'') = Inr ()"
  shows "emitted (sync_table env ce w st cols)
           = ActivateVersionMessage (stream ce)
               (get_stream_version env (tap_stream_id ce) (heap w st))
             # tl (emitted (sync_table env ce w st cols))
       \<and> (\<forall>m\<in>set (tl (emitted (sync_table env ce w st cols))).
             \<not> is_activate m
             \<and> (is_record m \<longrightarrow>
                  msg_version m = get_stream_version env (tap_stream_id ce) (heap w st)))"
proof (intro conjI ballI)
  show "emitted (sync_table env ce w st cols)
           = ActivateVersionMessage (stream ce)
               (get_stream_version env (tap_stream_id ce) (heap w st))
             # tl (emitted (sync_table env ce w st cols))"
    by (simp add: sync_table_verified [OF assms])
next
  fix m
  assume m: "m \<in> set (tl (emitted (sync_table env ce w st cols)))"
  let ?s = "\<lparr>catalog_entry = ce, state = st, columns = cols,
            log_file = get_bookmark w st (tap_stream_id ce) ''log_file'',
            log_pos = get_bookmark w st (tap_stream_id ce) ''log_pos'',
            stream_version = get_stream_version env (tap_stream_id ce) (heap w st),
            time_extracted = now env\<rparr>"
  from m obtain w' n' ps where "m \<in> set (emitted (sync_events ?s w' n' ps))"
    unfolding sync_table_verified [OF assms] by auto
  then have *: "(\<exists>vals. m = record_of ?s vals) \<or> is_state m"
    by (rule sync_events_messages)
  then show "\<not> is_activate m"
    by (cases m) (auto simp: record_of_def)
  from * show "is_record m \<longrightarrow>
          msg_version m = get_stream_version env (tap_stream_id ce) (heap w st)"
    by (cases m) (auto simp: record_of_def)
qed

theorem one_activate_version_witness:
  "verify_binlog_config ex_env ex_ce = Inr ()
   \<and> verify_log_file_exists ex_env ex_ce
        (get_bookmark ex_store 0 (tap_stream_id ex_ce) ''log_file'')
        (get_bookmark ex_store 0 (tap_stream_id ex_ce) ''log_pos'') = Inr ()
   \<and> hd (emitted (sync_table ex_env ex_ce ex_store 0 ex_columns))
       = ActivateVersionMessage ''t'' 7
   \<and> RecordMessage ''t'' [(''id'', PInt 1), (''name'', PStr ''a'')] 7
         (Datetime 1700000100 (Some UTC))
       \<in> set (tl (emitted (sync_table ex_env ex_ce ex_store 0 ex_columns)))
   \<and> msg_version (RecordMessage ''t'' [(''id'', PInt 1), (''name'', PStr ''a'')] 7
         (Datetime 1700000100 (Some UTC)))
       = get_stream_version ex_env (tap_stream_id ex_ce) (heap ex_store 0)"
proof -
  let ?m = "RecordMessage ''t'' [(''id'', PInt 1), (''name'', PStr ''a'')] 7
       (Datetime 1700000100 (Some UTC))"
  note inst = one_activate_version [OF ex_verified, of ex_columns]
  have mem: "?m \<in> set (tl (emitted (sync_table ex_env ex_ce ex_store 0 ex_columns)))"
    by (simp add: ex_run)
  have "is_record ?m" by simp
  with inst mem
  have v: "msg_version ?m = get_stream_version ex_env (tap_stream_id ex_ce) (heap ex_store 0)"
    by blast
  from inst have "hd (emitted (sync_table ex_env ex_ce ex_store 0 ex_columns))
       = ActivateVersionMessage (stream ex_ce)
           (get_stream_version ex_env (tap_stream_id ex_ce) (heap ex_store 0))"
    by (metis list.sel(1))
  then have h: "hd (emitted (sync_table ex_env ex_ce ex_store 0 ex_columns))
       = ActivateVersionMessage ''t'' 7"
    by (simp add: ex_env_def ex_ce_def)
  from ex_verified mem v h show ?thesis
    by simp
qed

subsection \<open>State messages hold copies\<close>

lemma heap_advance_other: "a \<noteq> state s \<Longrightarrow> heap (advance s p w) a = heap w a"
  by (simp add: advance_def heap_write_bookmark_other)

lemma next_addr_advance: "next_addr (advance s p w) = next_addr w"
  by (simp add: advance_def next_addr_write_bookmark)

lemma heap_yield_state_other:
  "a \<noteq> next_addr (store_of r) \<Longrightarrow> heap (store_of (yield_state s r)) a = heap (store_of r) a"
  by (simp add: heap_yield_state)

lemma heap_yield_state_copy:
  "heap (store_of (yield_state s r)) (next_addr (store_of r)) = heap (store_of r) (state s)"
  by (simp add: heap_yield_state)

text \<open>
  What one iteration does to the store: it allocates, it leaves every object that existed
  before alone except the live state object, and the object of each state message it
  yields is new and holds what the live state object holds when the iteration ends.
\<close>

lemma process_event_store:
  "next_addr w \<le> next_addr (store_of (process_event s w n p))
   \<and> (\<forall>a. a \<noteq> state s \<and> a < next_addr w \<longrightarrow>
         heap (store_of (process_event s w n p)) a = heap w a)
   \<and> (\<forall>a. StateMessage a \<in> set (emitted (process_event s w n p)) \<longrightarrow>
         next_addr w \<le> a \<and> a < next_addr (store_of (process_event s w n p))
         \<and> (state s < next_addr w \<longrightarrow>
              heap (store_of (process_event s w n p)) a
                = heap (store_of (process_event s w n p)) (state s)))"
proof (cases rule: process_event_cases [where s = s and p = p and w = w and n = n])
  case skipped
  then show ?thesis by (simp add: process_event_skipped)
next
  case (rotate nb pos)
  then show ?thesis
    by (simp add: process_event_rotate emitted_yield_state next_addr_yield_state
          heap_yield_state next_addr_write_bookmark heap_write_bookmark_other)
next
  case untracked
  then show ?thesis
    by (simp add: process_event_untracked emitted_yield_state next_addr_yield_state
          heap_yield_state)
next
  case (raised e)
  have "\<And>a. StateMessage a \<notin> set (emitted (sync_rows s w n (event p)))"
    using sync_rows_records [of _ s w n "event p"] by (auto simp: record_of_def)
  with raised show ?thesis
    by (simp add: process_event_raised sync_rows_next_addr sync_rows_heap_other)
next
  case tracked
  let ?r = "sync_rows s w n (event p)"
  let ?r2 = "?r\<lparr>store_of := advance s p (store_of ?r)\<rparr>"
  have norec: "\<And>a. StateMessage a \<notin> set (emitted ?r)"
    using sync_rows_records [of _ s w n "event p"] by (auto simp: record_of_def)
  have pe: "process_event s w n p =
     yield_state s (if rows_saved ?r2 mod UPDATE_BOOKMARK_PERIOD = 0 then yield_state s ?r2 else ?r2)"
    using tracked by (simp add: process_event_tracked Let_def)
  have nx: "next_addr (store_of ?r2) = next_addr w"
    by (simp add: next_addr_advance sync_rows_next_addr)
  have hp: "\<And>a. a \<noteq> state s \<Longrightarrow> heap (store_of ?r2) a = heap w a"
    by (simp add: heap_advance_other sync_rows_heap_other)
  show ?thesis
  proof (cases "rows_saved ?r2 mod UPDATE_BOOKMARK_PERIOD = 0")
    case True
    then have pe': "process_event s w n p = yield_state s (yield_state s ?r2)"
      by (simp add: pe)
    show ?thesis
      unfolding pe'
      using norec nx hp
      by (auto simp: emitted_yield_state next_addr_yield_state heap_yield_state)
  next
    case False
    then have pe': "process_event s w n p = yield_state s ?r2"
      by (simp add: pe)
    show ?thesis
      unfolding pe'
      using norec nx hp
      by (auto simp: emitted_yield_state next_addr_yield_state heap_yield_state)
  qed
qed

lemma sync_events_store:
  "next_addr w \<le> next_addr (store_of (sync_events s w n ps))
   \<and> (\<forall>a. a \<noteq> state s \<and> a < next_addr w \<longrightarrow>
         heap (store_of (sync_events s w n ps)) a = heap w a)"
proof (induction ps arbitrary: w n)
  case Nil
  show ?case by simp
next
  case (Cons p ps)
  let ?r = "process_event s w n p"
  note step = process_event_store [of w s n p]
  show ?case
  proof (cases "raised ?r")
    case (Some e)
    with step show ?thesis by (simp add: Let_def)
  next
    case None
    note rest = Cons.IH [of "store_of ?r" "rows_saved ?r"]
    from None have eq: "store_of (sync_events s w n (p # ps))
                 = store_of (sync_events s (store_of ?r) (rows_saved ?r) ps)"
      by (simp add: Let_def)
    show ?thesis
      unfolding eq using step rest by (metis le_trans less_le_trans)
  qed
qed

text \<open>
  Claim C8. The object a state message holds is not the live state object but a copy
  made by \<open>copy.deepcopy\<close> when the message is yielded: it holds what the live state
  holds at that moment (nothing is written between the copy and the end of the
  iteration), and whatever events are processed afterwards, with all their bookmark
  writes to the live state, its contents stay what they were.
\<close>

theorem state_message_is_independent_copy:
  assumes "state s < next_addr w"
    and "StateMessage a \<in> set (emitted (process_event s w n p))"
  shows "a \<noteq> state s
       \<and> heap (store_of (process_event s w n p)) a
           = heap (store_of (process_event s w n p)) (state s)
       \<and> heap (store_of (sync_events s (store_of (process_event s w n p))
                   (rows_saved (process_event s w n p)) ps)) a
           = heap (store_of (process_event s w n p)) a"
proof -
  let ?r = "process_event s w n p"
  from process_event_store [of w s n p] assms
  have fresh: "next_addr w \<le> a" and alloc: "a < next_addr (store_of ?r)"
    and copy: "heap (store_of ?r) a = heap (store_of ?r) (state s)"
    by simp_all
  from fresh assms(1) have ne: "a \<noteq> state s" by simp
  from sync_events_store [of "store_of ?r" s "rows_saved ?r" ps] ne alloc
  have "heap (store_of (sync_events s (store_of ?r) (rows_saved ?r) ps)) a = heap (store_of ?r) a"
    by simp
  with ne copy show ?thesis by simp
qed

theorem state_message_is_independent_copy_witness:
  "state ex_session < next_addr ex_store
   \<and> StateMessage 1 \<in> set (emitted (process_event ex_session ex_store 0 ex_write))
   \<and> heap (store_of (process_event ex_session ex_store 0 ex_write)) 1 ''db-t'' ''log_pos''
       = Some (PInt 340)
   \<and> heap (store_of (sync_events ex_session
              (store_of (process_event ex_session ex_store 0 ex_write))
              (rows_saved (process_event ex_session ex_store 0 ex_write)) [ex_rotate]))
         0 ''db-t'' ''log_pos'' = Some (PInt 4)
   \<and> heap (store_of (sync_events ex_session
              (store_of (process_event ex_session ex_store 0 ex_write))
              (rows_saved (process_event ex_session ex_store 0 ex_write)) [ex_rotate]))
         1 ''db-t'' ''log_pos'' = Some (PInt 340)"
proof -
  have h1: "state ex_session < next_addr ex_store"
    by (simp add: ex_defs)
  have h2: "StateMessage 1 \<in> set (emitted (process_event ex_session ex_store 0 ex_write))"
    by (simp add: ex_defs run_defs)
  have live: "heap (store_of (process_event ex_session ex_store 0 ex_write)) 0 ''db-t''
                ''log_pos'' = Some (PInt 340)"
    by (simp add: ex_defs run_defs)
  have later: "heap (store_of (sync_events ex_session
              (store_of (process_event ex_session ex_store 0 ex_write))
              (rows_saved (process_event ex_session ex_store 0 ex_write)) [ex_rotate]))
         0 ''db-t'' ''log_pos'' = Some (PInt 4)"
    by (simp add: ex_defs run_defs)
  from state_message_is_independent_copy [OF h1 h2, of "[ex_rotate]"] live
  have "heap (store_of (process_event ex_session ex_store 0 ex_write)) 1 ''db-t'' ''log_pos''
       = Some (PInt 340)"
    and "heap (store_of (sync_events ex_session
              (store_of (process_event ex_session ex_store 0 ex_write))
              (rows_saved (process_event ex_session ex_store 0 ex_write)) [ex_rotate]))
         1 ''db-t'' ''log_pos'' = Some (PInt 340)"
    by (simp_all add: ex_session_def)
  with h1 h2 later show ?thesis
    by simp
qed

subsection \<open>Configuration verification\<close>

lemma first_log_row:
  "(case filter (\<lambda>log. PStr (fst log) = lf) logs of
      [] \<Rightarrow> None | existing # _ \<Rightarrow> Some (snd existing))
     = map_of (map (\<lambda>log. (PStr (fst log), snd log)) logs) lf"
  by (induction logs) simp_all

lemma tail_position_None:
  "tail_position env lf = None \<longleftrightarrow> lf \<notin> PStr ` fst ` set (binary_logs env)"
  by (simp add: tail_position_def map_of_eq_None_iff image_image)

lemma verify_log_file_exists_tail:
  "verify_log_file_exists env ce lf (PInt pos) =
     (case tail_position env lf of
        None \<Rightarrow> Inl (LogFileDoesNotExist (stream ce) lf)
      | Some sz \<Rightarrow>
          if pos > sz then Inl (PositionGreaterThanCurrent (stream ce) (PInt pos) lf sz)
          else Inr ())"
proof (cases "filter (\<lambda>log. PStr (fst log) = lf) (binary_logs env)")
  case Nil
  with first_log_row [of lf "binary_logs env"] have "tail_position env lf = None"
    by (simp add: tail_position_def)
  with Nil show ?thesis
    by (simp add: verify_log_file_exists_def)
next
  case (Cons existing others)
  with first_log_row [of lf "binary_logs env"]
  have "tail_position env lf = Some (snd existing)"
    by (simp add: tail_position_def)
  with Cons show ?thesis
    by (simp add: verify_log_file_exists_def Let_def)
qed

text \<open>
  Claim C6. With an integer \<open>log_pos\<close> in the bookmark, \<open>sync_table\<close> ends before it
  has yielded or written anything exactly when \<open>binlog_format\<close> is not \<open>ROW\<close>, or
  \<open>binlog_row_image\<close> is not \<open>FULL\<close>, or the bookmarked log file is not among the
  server's binary logs, or the bookmarked position is beyond the size the server reports
  for that file. The exception then names the stream and the value observed, the checks
  being made in this order; the store is untouched and the reader is never opened.
  Otherwise both verifications return and the session begins with its
  \<open>ActivateVersionMessage\<close>.
\<close>

theorem verification_gates_the_session:
  assumes lf: "lf = get_bookmark w st (tap_stream_id ce) ''log_file''"
      and lp: "get_bookmark w st (tap_stream_id ce) ''log_pos'' = PInt pos"
  shows "(emitted (sync_table env ce w st cols) = [] \<longleftrightarrow>
            binlog_format env \<noteq> ''ROW'' \<or> binlog_row_image env \<noteq> ''FULL''
            \<or> lf \<notin> PStr ` fst ` set (binary_logs env)
            \<or> (\<exists>sz. tail_position env lf = Some sz \<and> pos > sz))
       \<and> (binlog_format env \<noteq> ''ROW'' \<longrightarrow>
            sync_table env ce w st cols
              = refused w (BinlogFormatNotRow (stream ce) (binlog_format env)))
       \<and> (binlog_format env = ''ROW'' \<and> binlog_row_image env \<noteq> ''FULL'' \<longrightarrow>
            sync_table env ce w st cols
              = refused w (BinlogRowImageNotFull (stream ce) (binlog_row_image env)))
       \<and> (binlog_format env = ''ROW'' \<and> binlog_row_image env = ''FULL''
            \<and> lf \<notin> PStr ` fst ` set (binary_logs env) \<longrightarrow>
            sync_table env ce w st cols = refused w (LogFileDoesNotExist (stream ce) lf))
       \<and> (binlog_format env = ''ROW'' \<and> binlog_row_image env = ''FULL''
            \<and> tail_position env lf = Some sz \<and> pos > sz \<longrightarrow>
            sync_table env ce w st cols
              = refused w (PositionGreaterThanCurrent (stream ce) (PInt pos) lf sz))
       \<and> (binlog_format env = ''ROW'' \<and> binlog_row_image env = ''FULL''
            \<and> tail_position env lf = Some sz \<and> pos \<le> sz \<longrightarrow>
            verify_binlog_config env ce = Inr ()
            \<and> verify_log_file_exists env ce lf (PInt pos) = Inr ()
            \<and> hd (emitted (sync_table env ce w st cols))
                = ActivateVersionMessage (stream ce)
                    (get_stream_version env (tap_stream_id ce) (heap w st)))"
proof -
  note tail = verify_log_file_exists_tail [of env ce lf pos]
  have bad_format: "sync_table env ce w st cols
              = refused w (BinlogFormatNotRow (stream ce) (binlog_format env))"
    if "binlog_format env \<noteq> ''ROW''"
    unfolding refused_def using that
    by (intro sync_table_refused) (simp add: verify_binlog_config_def)
  have bad_image: "sync_table env ce w st cols
              = refused w (BinlogRowImageNotFull (stream ce) (binlog_row_image env))"
    if "binlog_format env = ''ROW''" and "binlog_row_image env \<noteq> ''FULL''"
    unfolding refused_def using that
    by (intro sync_table_refused) (simp add: verify_binlog_config_def)
  have config: "verify_binlog_config env ce = Inr ()"
    if "binlog_format env = ''ROW''" and "binlog_row_image env = ''FULL''"
    using that by (simp add: verify_binlog_config_def)
  have missing: "sync_table env ce w st cols = refused w (LogFileDoesNotExist (stream ce) lf)"
    if "binlog_format env = ''ROW''" and "binlog_row_image env = ''FULL''"
      and "tail_position env lf = None"
    unfolding refused_def using that config tail lf lp
    by (intro sync_table_refused) simp
  have ahead: "sync_table env ce w st cols
              = refused w (PositionGreaterThanCurrent (stream ce) (PInt pos) lf sz)"
    if "binlog_format env = ''ROW''" and "binlog_row_image env = ''FULL''"
      and "tail_position env lf = Some sz" and "pos > sz" for sz
    unfolding refused_def using that config tail lf lp
    by (intro sync_table_refused) simp
  have passes: "verify_log_file_exists env ce lf (PInt pos) = Inr ()"
    if "tail_position env lf = Some sz" and "pos \<le> sz" for sz
    using that tail by simp
  have starts: "emitted (sync_table env ce w st cols) \<noteq> []
         \<and> hd (emitted (sync_table env ce w st cols))
             = ActivateVersionMessage (stream ce)
                 (get_stream_version env (tap_stream_id ce) (heap w st))"
    if "binlog_format env = ''ROW''" and "binlog_row_image env = ''FULL''"
      and "tail_position env lf = Some sz" and "pos \<le> sz" for sz
  proof -
    have "verify_log_file_exists env ce (get_bookmark w st (tap_stream_id ce) ''log_file'')
           (get_bookmark w st (tap_stream_id ce) ''log_pos'') = Inr ()"
      using passes [OF that(3,4)] lf lp by simp
    with config [OF that(1,2)] show ?thesis
      by (simp add: sync_table_verified)
  qed
  have exact: "emitted (sync_table env ce w st cols) = [] \<longleftrightarrow>
            binlog_format env \<noteq> ''ROW'' \<or> binlog_row_image env \<noteq> ''FULL''
            \<or> lf \<notin> PStr ` fst ` set (binary_logs env)
            \<or> (\<exists>sz. tail_position env lf = Some sz \<and> pos > sz)"
  proof (cases "binlog_format env = ''ROW'' \<and> binlog_row_image env = ''FULL''")
    case False
    then have "emitted (sync_table env ce w st cols) = []"
      by (cases "binlog_format env = ''ROW''") (simp_all add: bad_format bad_image refused_def)
    with False show ?thesis by blast
  next
    case True
    show ?thesis
    proof (cases "tail_position env lf")
      case None
      with True missing show ?thesis
        by (simp add: refused_def tail_position_None)
    next
      case (Some sz)
      then have present: "\<not> lf \<notin> PStr ` fst ` set (binary_logs env)"
        using tail_position_None [of env lf] by simp
      show ?thesis
      proof (cases "pos > sz")
        case True
        with \<open>binlog_format env = ''ROW'' \<and> binlog_row_image env = ''FULL''\<close> Some
          ahead [of sz]
        show ?thesis by (simp add: refused_def)
      next
        case False
        with \<open>binlog_format env = ''ROW'' \<and> binlog_row_image env = ''FULL''\<close> Some
        have "emitted (sync_table env ce w st cols) \<noteq> []"
          using starts [of sz] by simp
        with False Some present True show ?thesis by simp
      qed
    qed
  qed
  show ?thesis
  proof (intro conjI impI)
    show "emitted (sync_table env ce w st cols) = [] \<longleftrightarrow>
            binlog_format env \<noteq> ''ROW'' \<or> binlog_row_image env \<noteq> ''FULL''
            \<or> lf \<notin> PStr ` fst ` set (binary_logs env)
            \<or> (\<exists>sz. tail_position env lf = Some sz \<and> pos > sz)"
      by (rule exact)
  qed (use bad_format bad_image missing ahead config passes starts in
         \<open>simp_all add: tail_position_None\<close>)
qed

theorem verification_gates_the_session_witness:
  "PStr ''bin.000005'' = get_bookmark ex_store 0 (tap_stream_id ex_ce) ''log_file''
   \<and> get_bookmark ex_store 0 (tap_stream_id ex_ce) ''log_pos'' = PInt 120
   \<and> binlog_format (ex_env\<lparr>binlog_format := ''MIXED''\<rparr>) \<noteq> ''ROW''
   \<and> sync_table (ex_env\<lparr>binlog_format := ''MIXED''\<rparr>) ex_ce ex_store 0 ex_columns
       = refused ex_store (BinlogFormatNotRow ''t'' ''MIXED'')
   \<and> tail_position ex_env (PStr ''bin.000005'') = Some 1024
   \<and> get_bookmark (write_bookmark ex_store 0 ''db-t'' ''log_pos'' (PInt 5000)) 0
         (tap_stream_id ex_ce) ''log_pos'' = PInt 5000
   \<and> sync_table ex_env ex_ce (write_bookmark ex_store 0 ''db-t'' ''log_pos'' (PInt 5000)) 0
         ex_columns
       = refused (write_bookmark ex_store 0 ''db-t'' ''log_pos'' (PInt 5000))
           (PositionGreaterThanCurrent ''t'' (PInt 5000) (PStr ''bin.000005'') 1024)
   \<and> hd (emitted (sync_table ex_env ex_ce ex_store 0 ex_columns))
       = ActivateVersionMessage ''t'' 7"
proof -
  let ?w = "write_bookmark ex_store 0 ''db-t'' ''log_pos'' (PInt 5000)"
  have f: "PStr ''bin.000005'' = get_bookmark ex_store 0 (tap_stream_id ex_ce) ''log_file''"
    and p: "get_bookmark ex_store 0 (tap_stream_id ex_ce) ''log_pos'' = PInt 120"
    by (simp_all add: ex_bookmark)
  have f': "PStr ''bin.000005'' = get_bookmark ?w 0 (tap_stream_id ex_ce) ''log_file''"
    and p': "get_bookmark ?w 0 (tap_stream_id ex_ce) ''log_pos'' = PInt 5000"
    by (simp_all add: get_bookmark_def write_bookmark_def ex_store_def ex_ce_def)
  have t: "tail_position ex_env (PStr ''bin.000005'') = Some 1024"
    and t': "tail_position (ex_env\<lparr>binlog_format := ''MIXED''\<rparr>) (PStr ''bin.000005'')
               = Some 1024"
    by (simp_all add: tail_position_def ex_env_def)
  have m: "binlog_format (ex_env\<lparr>binlog_format := ''MIXED''\<rparr>) \<noteq> ''ROW''"
    by simp
  have c: "binlog_format ex_env = ''ROW''" "binlog_row_image ex_env = ''FULL''"
    "stream ex_ce = ''t''" "get_stream_version ex_env (tap_stream_id ex_ce) (heap ex_store 0) = 7"
    by (simp_all add: ex_env_def ex_ce_def)
  show ?thesis
    using f p p' t m c
      verification_gates_the_session [OF f p, where env = "ex_env\<lparr>binlog_format := ''MIXED''\<rparr>"
        and cols = ex_columns and sz = 1024]
      verification_gates_the_session [OF f' p', where env = ex_env and cols = ex_columns
        and sz = 1024]
      verification_gates_the_session [OF f p, where env = ex_env and cols = ex_columns
        and sz = 1024]
    by simp
qed

end
